theory Spec2Isabelle
  imports Complex_Main "HOL-Library.Word"
begin

unbundle bit_operations_syntax

text \<open>
  The Janet bindings for yyjson: \<open>bindings.c\<close> defines the two functions of the
  module, \<open>json_decode\<close> and \<open>json_encode\<close>, and the two recursive conversions
  \<open>decode_one\<close> and \<open>encode_one\<close> between a yyjson document and a Janet value. The
  theory holds these four functions, what they use of Janet and of yyjson, and the
  properties proved of them.
\<close>

section \<open>Values of the two libraries that \<open>bindings.c\<close> connects\<close>

subsection \<open>C doubles\<close>

text \<open>
  A C \<open>double\<close> is either finite, an infinity or not-a-number. A finite double is
  modelled by its exact rational value; every finite double is a rational, so a theorem
  about all of \<open>Fin q\<close> covers all finite doubles. The sign of zero is not kept:
  \<open>==\<close> does not see it, and neither does \<open>round(x) == x\<close>.
\<close>

datatype double = Fin rat | PInf | NInf | NaN

text \<open>\<open>round\<close> of \<open>math.h\<close>: to the nearest integer, halves away from zero.\<close>

fun c_round :: "double \<Rightarrow> double" where
  "c_round (Fin q) = Fin (of_int (if 0 \<le> q then \<lfloor>q + 1 / 2\<rfloor> else \<lceil>q - 1 / 2\<rceil>))"
| "c_round PInf = PInf"
| "c_round NInf = NInf"
| "c_round NaN = NaN"

text \<open>The operator \<open>==\<close> on doubles: not-a-number equals nothing, itself included.\<close>

fun double_eq :: "double \<Rightarrow> double \<Rightarrow> bool" where
  "double_eq NaN y = False"
| "double_eq x NaN = False"
| "double_eq x y = (x = y)"

text \<open>
  The cast \<open>(int64_t)number\<close> truncates toward zero. C defines it only when the
  truncated value is an \<open>int64_t\<close>; for every other double (the infinities, NaN, finite
  values of magnitude \<open>2^63\<close> and above) the produced bits are whatever the platform
  yields, here the parameter \<open>ub\<close>, about which nothing is assumed.
\<close>

definition c_trunc :: "rat \<Rightarrow> int" where
  "c_trunc q = (if 0 \<le> q then \<lfloor>q\<rfloor> else \<lceil>q\<rceil>)"

definition in_int64 :: "int \<Rightarrow> bool" where
  "in_int64 i = (- (2 ^ 63) \<le> i \<and> i < 2 ^ 63)"

fun int64_of_double :: "(double \<Rightarrow> 64 word) \<Rightarrow> double \<Rightarrow> 64 word" where
  "int64_of_double ub (Fin q) = (if in_int64 (c_trunc q) then word_of_int (c_trunc q) else ub (Fin q))"
| "int64_of_double ub PInf = ub PInf"
| "int64_of_double ub NInf = ub NInf"
| "int64_of_double ub NaN = ub NaN"

subsection \<open>C strings\<close>

definition NUL :: char where
  "NUL = CHR 0x00"

text \<open>
  \<open>strlen\<close> and every function that takes a \<open>const char *\<close> read the bytes at the
  pointer up to the first NUL. \<open>mem\<close> is the allocation the pointer points into, from
  the pointer on. With no NUL inside the allocation the read runs past its end, which C
  does not define: \<open>None\<close>.
\<close>

definition c_prefix :: "string \<Rightarrow> string" where
  "c_prefix mem = takeWhile (\<lambda>c. c \<noteq> NUL) mem"

definition c_str :: "string \<Rightarrow> string option" where
  "c_str mem = (if NUL \<in> set mem then Some (c_prefix mem) else None)"

subsection \<open>Janet values\<close>

text \<open>
  A Janet buffer is a mutable object \<open>{count, capacity, data}\<close>: \<open>data\<close> are the
  \<open>capacity\<close> allocated bytes, of which the first \<open>count\<close> are the content. Buffers
  live in a store and a value refers to one by its address, since \<open>json_decode\<close> and
  \<open>json_encode\<close> update buffers in place and return the very buffer they were given.
\<close>

record janet_buffer =
  count :: nat
  data :: string

type_synonym heap = "janet_buffer list"


definition content :: "janet_buffer \<Rightarrow> string" where
  "content b = take (count b) (data b)"

text \<open>
  The kinds of \<open>janet_type\<close>. Strings, symbols and keywords are immutable byte
  sequences. Tuples and arrays carry their items, structs and tables their slots
  \<open>kvs[0 .. capacity)\<close> as \<open>janet_dictionary_view\<close> shows them: a slot whose key is nil
  is empty. The order of the slots of a real table is decided by Janet's hash function;
  the model keeps the order in which the keys were first put. Arrays and tables are
  taken by value: this program never updates one that it was given. \<open>JOther\<close> stands
  for every remaining kind (functions, fibers, abstract types, pointers).
\<close>

datatype janet =
    JNil
  | JBoolean bool
  | JNumber double
  | JString string
  | JSymbol string
  | JKeyword string
  | JBuffer nat
  | JTuple "janet list"
  | JArray "janet list"
  | JTable "(janet \<times> janet) list"
  | JStruct "(janet \<times> janet) list"
  | JOther

text \<open>\<open>janet_truthy\<close>: everything but nil and false.\<close>

fun janet_truthy :: "janet \<Rightarrow> bool" where
  "janet_truthy JNil = False"
| "janet_truthy (JBoolean b) = b"
| "janet_truthy x = True"

text \<open>\<open>janet_checktypes(x, JANET_TFLAG_BYTES)\<close>: string, symbol, buffer or keyword.\<close>

fun is_bytes :: "janet \<Rightarrow> bool" where
  "is_bytes (JString s) = True"
| "is_bytes (JSymbol s) = True"
| "is_bytes (JKeyword s) = True"
| "is_bytes (JBuffer a) = True"
| "is_bytes x = False"

text \<open>
  \<open>janet_keyeq(x, cstring)\<close> of the Janet C API: \<open>x\<close> is a keyword and
  \<open>janet_cstrcmp\<close> finds its bytes equal to the C string. The comparison stops at a NUL
  of the C string, so bytes of the keyword after a NUL of its own are not looked at.
\<close>

fun janet_keyeq :: "janet \<Rightarrow> string \<Rightarrow> bool" where
  "janet_keyeq (JKeyword k) cs = (c_prefix k = cs)"
| "janet_keyeq x cs = False"

text \<open>
  \<open>janet_bytes_view\<close> hands out the data pointer of a byte sequence. Janet ends the
  data of a string, symbol or keyword with a NUL byte after the content; the data of a
  buffer are its allocation as it is. A buffer address outside the store has no data.
\<close>

fun bytes_data :: "heap \<Rightarrow> janet \<Rightarrow> string option" where
  "bytes_data h (JString s) = Some (s @ [NUL])"
| "bytes_data h (JSymbol s) = Some (s @ [NUL])"
| "bytes_data h (JKeyword s) = Some (s @ [NUL])"
| "bytes_data h (JBuffer a) = (if a < length h then Some (data (h ! a)) else None)"
| "bytes_data h x = None"

text \<open>
  \<open>janet_table_put\<close>: a key that is nil or not-a-number is ignored, a nil value removes
  the key, a key already in the table gets the new value, a new key gets a slot.
\<close>

fun table_set :: "(janet \<times> janet) list \<Rightarrow> janet \<Rightarrow> janet \<Rightarrow> (janet \<times> janet) list" where
  "table_set [] k v = [(k, v)]"
| "table_set ((k', v') # kvs) k v = (if k' = k then (k, v) # kvs else (k', v') # table_set kvs k v)"

definition janet_table_put :: "(janet \<times> janet) list \<Rightarrow> janet \<Rightarrow> janet \<Rightarrow> (janet \<times> janet) list" where
  "janet_table_put t k v =
     (if k = JNil \<or> k = JNumber NaN then t
      else if v = JNil then filter (\<lambda>kv. fst kv \<noteq> k) t
      else table_set t k v)"

subsection \<open>yyjson documents\<close>

text \<open>
  Modelled from the spec: the JSON document tree of yyjson, whose sources are not among
  those of \<open>bindings.c\<close>. Its node kinds are null, bool, number (a double), string,
  array (an ordered sequence of nodes) and object (an ordered sequence of pairs). A node
  of a parsed document is taken as the accessors that \<open>decode_one\<close> calls show it:
  \<open>yyjson_get_type\<close> gives the constructor, \<open>yyjson_get_num\<close> the number as a double
  whatever its literal was, \<open>yyjson_get_str\<close> a pointer to the bytes of a string, which
  end with a NUL. \<open>VNone\<close> and \<open>VRaw\<close> are the two node types that are not JSON values,
  for which \<open>decode_one\<close> has its default case.
\<close>

datatype yyjson_val =
    VNone
  | VRaw string
  | VNull
  | VBool bool
  | VNum double
  | VStr string
  | VArr "yyjson_val list"
  | VObj "(yyjson_val \<times> yyjson_val) list"

text \<open>
  Modelled from the spec: a node of a document under construction, with one constructor
  for each maker that \<open>encode_one\<close> calls (\<open>yyjson_mut_null\<close>, \<open>yyjson_mut_bool\<close>,
  \<open>yyjson_mut_int\<close>, \<open>yyjson_mut_real\<close>, \<open>yyjson_mut_str\<close>, \<open>yyjson_mut_arr\<close>,
  \<open>yyjson_mut_obj\<close>).
\<close>

datatype yyjson_mut_val =
    MNull
  | MBool bool
  | MInt "64 word"
  | MReal double
  | MStr string
  | MArr "yyjson_mut_val list"
  | MObj "(yyjson_mut_val \<times> yyjson_mut_val) list"

text \<open>
  Modelled from the spec: \<open>yyjson_mut_obj_add\<close> adds the pair after those that the
  object has. The keys of an object are strings: a pair whose key is not a string node
  is not added.
\<close>

fun yyjson_mut_obj_add ::
  "(yyjson_mut_val \<times> yyjson_mut_val) list \<Rightarrow> yyjson_mut_val \<Rightarrow> yyjson_mut_val \<Rightarrow>
   (yyjson_mut_val \<times> yyjson_mut_val) list" where
  "yyjson_mut_obj_add obj (MStr k) v = obj @ [(MStr k, v)]"
| "yyjson_mut_obj_add obj k v = obj"

subsection \<open>Failures\<close>

text \<open>
  \<open>Err\<close> is an error message returned by \<open>decode_one\<close> or \<open>encode_one\<close>, \<open>Panic\<close> a
  \<open>janet_panic\<close> with its message, \<open>Undefined\<close> an execution that C does not define
  (a read past an allocation, a NULL passed to \<open>strlen\<close>).
\<close>

datatype error = Err string | Panic string | Undefined

text \<open>
  The messages at the labels \<open>recurdepth\<close> and \<open>badtype\<close> of both conversions, the
  message for a key of a mapping, and the test that both conversions start with.
\<close>

definition recurdepth :: error where
  "recurdepth = Err ''recursed too deeply''"

definition badtype :: error where
  "badtype = Err ''type not supported''"

definition badkey :: error where
  "badkey = Err ''object key must be a byte sequence''"

definition guard_tripped :: "int \<Rightarrow> int \<Rightarrow> bool" where
  "guard_tripped G depth = (G < depth AND 0xFFFF)"

section \<open>JSON encoding\<close>

text \<open>
  \<open>yyjson_mut_str(doc, (const char *)bytes)\<close> takes the bytes as a C string: the
  length that \<open>janet_bytes_view\<close> stored is not used.
\<close>

definition encode_bytes :: "heap \<Rightarrow> janet \<Rightarrow> error + yyjson_mut_val" where
  "encode_bytes h x =
     (if janet_keyeq x ''null'' then Inr MNull
      else case bytes_data h x of
             None \<Rightarrow> Inl Undefined
           | Some mem \<Rightarrow> (case c_str mem of None \<Rightarrow> Inl Undefined | Some s \<Rightarrow> Inr (MStr s)))"

text \<open>
  \<open>encode_one\<close>, with \<open>G\<close> for \<open>JANET_RECURSION_GUARD\<close> (a macro of \<open>janet.h\<close>).
  \<open>encode_items\<close> is the loop over the items of a tuple or array and \<open>encode_kvs\<close> the
  loop over the slots of a table or struct; each carries the node built so far.
\<close>

function encode_one :: "(double \<Rightarrow> 64 word) \<Rightarrow> int \<Rightarrow> heap \<Rightarrow> janet \<Rightarrow> int \<Rightarrow> error + yyjson_mut_val"
and encode_items :: "(double \<Rightarrow> 64 word) \<Rightarrow> int \<Rightarrow> heap \<Rightarrow> janet list \<Rightarrow> int \<Rightarrow>
      yyjson_mut_val list \<Rightarrow> error + yyjson_mut_val list"
and encode_kvs :: "(double \<Rightarrow> 64 word) \<Rightarrow> int \<Rightarrow> heap \<Rightarrow> (janet \<times> janet) list \<Rightarrow> int \<Rightarrow>
      (yyjson_mut_val \<times> yyjson_mut_val) list \<Rightarrow> error + (yyjson_mut_val \<times> yyjson_mut_val) list"
where
  "encode_one ub G h JNil depth =
     (if guard_tripped G depth then Inl recurdepth else Inr MNull)"
| "encode_one ub G h (JBoolean b) depth =
     (if guard_tripped G depth then Inl recurdepth else Inr (MBool b))"
| "encode_one ub G h (JNumber number) depth =
     (if guard_tripped G depth then Inl recurdepth
      else if double_eq (c_round number) number then Inr (MInt (int64_of_double ub number))
      else Inr (MReal number))"
| "encode_one ub G h (JString s) depth =
     (if guard_tripped G depth then Inl recurdepth else encode_bytes h (JString s))"
| "encode_one ub G h (JSymbol s) depth =
     (if guard_tripped G depth then Inl recurdepth else encode_bytes h (JSymbol s))"
| "encode_one ub G h (JKeyword s) depth =
     (if guard_tripped G depth then Inl recurdepth else encode_bytes h (JKeyword s))"
| "encode_one ub G h (JBuffer a) depth =
     (if guard_tripped G depth then Inl recurdepth else encode_bytes h (JBuffer a))"
| "encode_one ub G h (JTuple items) depth =
     (if guard_tripped G depth then Inl recurdepth
      else case encode_items ub G h items depth [] of
             Inl err \<Rightarrow> Inl err
           | Inr array \<Rightarrow> Inr (MArr array))"
| "encode_one ub G h (JArray items) depth =
     (if guard_tripped G depth then Inl recurdepth
      else case encode_items ub G h items depth [] of
             Inl err \<Rightarrow> Inl err
           | Inr array \<Rightarrow> Inr (MArr array))"
| "encode_one ub G h (JTable kvs) depth =
     (if guard_tripped G depth then Inl recurdepth
      else case encode_kvs ub G h kvs depth [] of
             Inl err \<Rightarrow> Inl err
           | Inr obj \<Rightarrow> Inr (MObj obj))"
| "encode_one ub G h (JStruct kvs) depth =
     (if guard_tripped G depth then Inl recurdepth
      else case encode_kvs ub G h kvs depth [] of
             Inl err \<Rightarrow> Inl err
           | Inr obj \<Rightarrow> Inr (MObj obj))"
| "encode_one ub G h JOther depth =
     (if guard_tripped G depth then Inl recurdepth else Inl badtype)"
| "encode_items ub G h [] depth array = Inr array"
| "encode_items ub G h (x # items) depth array =
     (case encode_one ub G h x (depth + 1) of
        Inl err \<Rightarrow> Inl err
      | Inr subval \<Rightarrow> encode_items ub G h items depth (array @ [subval]))"
| "encode_kvs ub G h [] depth obj = Inr obj"
| "encode_kvs ub G h ((key, val) # kvs) depth obj =
     (if key = JNil then encode_kvs ub G h kvs depth obj
      else if \<not> is_bytes key then Inl badkey
      else case encode_one ub G h key (depth + 1) of
             Inl err \<Rightarrow> Inl err
           | Inr subkey \<Rightarrow>
               (case encode_one ub G h val (depth + 1) of
                  Inl err \<Rightarrow> Inl err
                | Inr subval \<Rightarrow> encode_kvs ub G h kvs depth (yyjson_mut_obj_add obj subkey subval)))"

  by pat_completeness auto

termination
  by (relation "measure (\<lambda>p. case p of
          Inl (ub, G, h, x, depth) \<Rightarrow> size x
        | Inr (Inl (ub, G, h, items, depth, array)) \<Rightarrow> size_list size items
        | Inr (Inr (ub, G, h, kvs, depth, obj)) \<Rightarrow> size_list (size_prod size size) kvs)") auto


section \<open>JSON decoding\<close>

definition JSON_KEYWORD_KEY :: int where
  "JSON_KEYWORD_KEY = 0x10000"

definition JSON_NULL_TO_NIL :: int where
  "JSON_NULL_TO_NIL = 0x20000"

definition badobjkey :: error where
  "badobjkey = Err ''object key must be a str''"

text \<open>
  \<open>janet_cstringv\<close> and \<open>janet_ckeywordv\<close> copy a C string: of the bytes of a yyjson
  string they keep those before its first NUL.
\<close>

definition janet_cstringv :: "string \<Rightarrow> janet" where
  "janet_cstringv s = JString (c_prefix s)"

definition janet_ckeywordv :: "string \<Rightarrow> janet" where
  "janet_ckeywordv s = JKeyword (c_prefix s)"

text \<open>
  \<open>decode_one\<close>: the argument \<open>depth\<close> holds the nesting depth in its low 16 bits and
  the two flags above them. \<open>decode_arr\<close> is the loop of \<open>yyjson_arr_foreach\<close> and
  \<open>decode_obj\<close> the loop of \<open>yyjson_obj_foreach\<close>; each carries the array or table
  built so far.
\<close>

function decode_one :: "int \<Rightarrow> yyjson_val \<Rightarrow> int \<Rightarrow> error + janet"
and decode_arr :: "int \<Rightarrow> yyjson_val list \<Rightarrow> int \<Rightarrow> janet list \<Rightarrow> error + janet list"
and decode_obj :: "int \<Rightarrow> (yyjson_val \<times> yyjson_val) list \<Rightarrow> int \<Rightarrow> (janet \<times> janet) list \<Rightarrow>
      error + (janet \<times> janet) list"
where
  "decode_one G VNone depth =
     (if guard_tripped G depth then Inl recurdepth else Inl badtype)"
| "decode_one G (VRaw s) depth =
     (if guard_tripped G depth then Inl recurdepth else Inl badtype)"
| "decode_one G VNull depth =
     (if guard_tripped G depth then Inl recurdepth
      else if depth AND JSON_NULL_TO_NIL \<noteq> 0 then Inr JNil
      else Inr (janet_ckeywordv ''null''))"
| "decode_one G (VBool b) depth =
     (if guard_tripped G depth then Inl recurdepth else Inr (JBoolean b))"
| "decode_one G (VNum n) depth =
     (if guard_tripped G depth then Inl recurdepth else Inr (JNumber n))"
| "decode_one G (VStr s) depth =
     (if guard_tripped G depth then Inl recurdepth else Inr (janet_cstringv s))"
| "decode_one G (VArr vals) depth =
     (if guard_tripped G depth then Inl recurdepth
      else case decode_arr G vals depth [] of
             Inl err \<Rightarrow> Inl err
           | Inr array \<Rightarrow> Inr (JArray array))"
| "decode_one G (VObj kvs) depth =
     (if guard_tripped G depth then Inl recurdepth
      else case decode_obj G kvs depth [] of
             Inl err \<Rightarrow> Inl err
           | Inr table \<Rightarrow> Inr (JTable table))"
| "decode_arr G [] depth array = Inr array"
| "decode_arr G (val # vals) depth array =
     (case decode_one G val (depth + 1) of
        Inl err \<Rightarrow> Inl err
      | Inr subval \<Rightarrow> decode_arr G vals depth (array @ [subval]))"
| "decode_obj G [] depth table = Inr table"
| "decode_obj G ((key, val) # kvs) depth table =
     (case key of
        VStr k \<Rightarrow>
          (case decode_one G val (depth + 1) of
             Inl err \<Rightarrow> Inl err
           | Inr subval \<Rightarrow>
               decode_obj G kvs depth
                 (janet_table_put table
                    (if depth AND JSON_KEYWORD_KEY \<noteq> 0 then janet_ckeywordv k else janet_cstringv k)
                    subval))
      | _ \<Rightarrow> Inl badobjkey)"
  by pat_completeness auto

termination
  by (relation "measure (\<lambda>p. case p of
          Inl (G, v, depth) \<Rightarrow> size v
        | Inr (Inl (G, vals, depth, array)) \<Rightarrow> size_list size vals
        | Inr (Inr (G, kvs, depth, table)) \<Rightarrow> size_list (size_prod size size) kvs)") auto


section \<open>The two functions of the module\<close>

subsection \<open>Janet buffers\<close>

definition INT32_MAX :: nat where
  "INT32_MAX = 2147483647"

text \<open>
  \<open>janet_buffer_push_bytes\<close>: a panic when the new count would pass \<open>INT32_MAX\<close>;
  otherwise the bytes are stored after the content, in the allocation when they fit and
  in a larger one when not. Janet allocates spare capacity, whose bytes C leaves
  unspecified; the model allocates none.
\<close>

definition janet_buffer_push_bytes :: "janet_buffer \<Rightarrow> string \<Rightarrow> error + janet_buffer" where
  "janet_buffer_push_bytes b bs =
     (if INT32_MAX < count b + length bs then Inl (Panic ''buffer overflow'')
      else Inr \<lparr>count = count b + length bs,
                data = take (count b) (data b) @ bs @ drop (count b + length bs) (data b)\<rparr>)"

definition janet_buffer_push_u8 :: "janet_buffer \<Rightarrow> char \<Rightarrow> error + janet_buffer" where
  "janet_buffer_push_u8 b c = janet_buffer_push_bytes b [c]"

text \<open>
  \<open>janet_buffer(capacity)\<close> makes an empty buffer. The bytes of its allocation are
  not initialised in C; the model has them zero.
\<close>

definition janet_buffer :: "nat \<Rightarrow> janet_buffer" where
  "janet_buffer cap = \<lparr>count = 0, data = replicate cap NUL\<rparr>"

text \<open>
  \<open>janet_optbuffer(argv, argc, n, dflt_len)\<close>: a new buffer when the argument is
  missing or nil, the buffer of the argument when it is one, a panic otherwise. The
  result is the store, with the new buffer if one was made, and the buffer's address.
\<close>

definition janet_optbuffer :: "heap \<Rightarrow> janet list \<Rightarrow> nat \<Rightarrow> nat \<Rightarrow> error + heap \<times> nat" where
  "janet_optbuffer h argv n dflt_len =
     (if length argv \<le> n \<or> argv ! n = JNil then Inr (h @ [janet_buffer dflt_len], length h)
      else case argv ! n of
             JBuffer a \<Rightarrow> (if a < length h then Inr (h, a) else Inl Undefined)
           | _ \<Rightarrow> Inl (Panic ''bad slot, expected buffer''))"

definition arity_ok :: "janet list \<Rightarrow> bool" where
  "arity_ok argv = (1 \<le> length argv \<and> length argv \<le> 3)"

definition arity_panic :: error where
  "arity_panic = Panic ''arity mismatch''"

subsection \<open>encode\<close>

text \<open>
  \<open>json_encode\<close>. \<open>W\<close> is \<open>yyjson_mut_write\<close>: from the flag (pretty or not) and the
  root it gives the JSON text, or nothing when the writer fails and returns NULL. The
  text is then read as a C string by \<open>janet_buffer_push_cstring\<close>; a NULL there is not
  defined. The result is the store after the call and what the call returns or raises.
\<close>

definition json_encode ::
  "(bool \<Rightarrow> yyjson_mut_val \<Rightarrow> string option) \<Rightarrow> (double \<Rightarrow> 64 word) \<Rightarrow> int \<Rightarrow> heap \<Rightarrow> janet list \<Rightarrow>
   heap \<times> (error + janet)" where
  "json_encode W ub G h argv =
     (if \<not> arity_ok argv then (h, Inl arity_panic)
      else case encode_one ub G h (argv ! 0) 0 of
             Inl (Err msg) \<Rightarrow> (h, Inl (Panic (''encode error: '' @ msg)))
           | Inl e \<Rightarrow> (h, Inl e)
           | Inr root_val \<Rightarrow>
               (let json = W (1 < length argv \<and> janet_truthy (argv ! 1)) root_val;
                    dflt_len = (case json of None \<Rightarrow> 0 | Some txt \<Rightarrow> length txt)
                in case janet_optbuffer h argv 2 dflt_len of
                     Inl e \<Rightarrow> (h, Inl e)
                   | Inr (h', a) \<Rightarrow>
                       (case json of
                          None \<Rightarrow> (h', Inl Undefined)
                        | Some txt \<Rightarrow>
                            (case janet_buffer_push_bytes (h' ! a) (c_prefix txt) of
                               Inl e \<Rightarrow> (h', Inl e)
                             | Inr b \<Rightarrow> (h'[a := b], Inr (JBuffer a))))))"

subsection \<open>decode\<close>

text \<open>
  The first lines of \<open>json_decode\<close>: the pointer \<open>p\<close> to the source text. For a buffer a
  NUL is pushed and the count taken back, so that the byte after the content is NUL; for
  the other byte sequences \<open>janet_getbytes\<close> gives the data, and panics on any other
  kind. The result is the store and the bytes at \<open>p\<close>.
\<close>

definition decode_source :: "heap \<Rightarrow> janet \<Rightarrow> error + heap \<times> string" where
  "decode_source h x =
     (case x of
        JBuffer a \<Rightarrow>
          (if \<not> a < length h then Inl Undefined
           else case janet_buffer_push_u8 (h ! a) NUL of
                  Inl e \<Rightarrow> Inl e
                | Inr b \<Rightarrow> Inr (h[a := b\<lparr>count := count b - 1\<rparr>], data b))
      | JString s \<Rightarrow> Inr (h, s @ [NUL])
      | JSymbol s \<Rightarrow> Inr (h, s @ [NUL])
      | JKeyword s \<Rightarrow> Inr (h, s @ [NUL])
      | _ \<Rightarrow> Inl (Panic ''bad slot, expected bytes''))"

text \<open>The digits of \<open>%d\<close>.\<close>

fun digit :: "nat \<Rightarrow> char" where
  "digit n = char_of (48 + n)"

function decimal :: "nat \<Rightarrow> string" where
  "decimal n = (if n < 10 then [digit n] else decimal (n div 10) @ [digit (n mod 10)])"
  by pat_completeness auto

termination
  by (relation "measure id") auto

definition decode_flags :: "janet list \<Rightarrow> int" where
  "decode_flags argv =
     (let flags = 0;
          flags = (if 1 < length argv \<and> janet_truthy (argv ! 1) then flags OR JSON_KEYWORD_KEY else flags);
          flags = (if 2 < length argv \<and> janet_truthy (argv ! 2) then flags OR JSON_NULL_TO_NIL else flags)
      in flags)"

text \<open>
  \<open>json_decode\<close>. \<open>R\<close> is \<open>yyjson_read_opts\<close> with no flag: from the \<open>strlen(p)\<close>
  bytes at \<open>p\<close> it gives the root of the document, or the position and message of its
  error.
\<close>

definition json_decode ::
  "(string \<Rightarrow> nat \<times> string + yyjson_val) \<Rightarrow> int \<Rightarrow> heap \<Rightarrow> janet list \<Rightarrow> heap \<times> (error + janet)" where
  "json_decode R G h argv =
     (if \<not> arity_ok argv then (h, Inl arity_panic)
      else case decode_source h (argv ! 0) of
             Inl e \<Rightarrow> (h, Inl e)
           | Inr (h', p) \<Rightarrow>
               (case c_str p of
                  None \<Rightarrow> (h', Inl Undefined)
                | Some src \<Rightarrow>
                    (case R src of
                       Inl (pos, msg) \<Rightarrow>
                         (h', Inl (Panic (''decode error at position '' @ decimal pos @ '': '' @ msg)))
                     | Inr root_val \<Rightarrow>
                         (case decode_one G root_val (decode_flags argv) of
                            Inl (Err err_msg) \<Rightarrow> (h', Inl (Panic (''decode error: '' @ err_msg)))
                          | Inl e \<Rightarrow> (h', Inl e)
                          | Inr ret \<Rightarrow> (h', Inr ret)))))"



subsection \<open>Views used to state the properties\<close>

text \<open>
  The bytes \<open>bytes[0 .. len)\<close> that \<open>janet_bytes_view\<close> describes: the content of the
  byte sequence.
\<close>

fun bytes_content :: "heap \<Rightarrow> janet \<Rightarrow> string option" where
  "bytes_content h (JString s) = Some s"
| "bytes_content h (JSymbol s) = Some s"
| "bytes_content h (JKeyword s) = Some s"
| "bytes_content h (JBuffer a) = (if a < length h then Some (content (h ! a)) else None)"
| "bytes_content h x = None"

text \<open>The content of the buffer that a call returned, when it returned one.\<close>

fun returned_text :: "heap \<times> (error + janet) \<Rightarrow> string option" where
  "returned_text (h, Inr (JBuffer a)) = (if a < length h then Some (content (h ! a)) else None)"
| "returned_text r = None"


subsection \<open>Nesting, and values that have a JSON form\<close>

text \<open>
  How many levels below its root the conversion of a value goes: an item is one level
  below its tuple or array, and the key and the value of a slot one level below their
  table or struct. A slot whose key is nil is not visited.
\<close>

function janet_height :: "janet \<Rightarrow> nat"
and items_height :: "janet list \<Rightarrow> nat"
and kvs_height :: "(janet \<times> janet) list \<Rightarrow> nat"
where
  "janet_height JNil = 0"
| "janet_height (JBoolean b) = 0"
| "janet_height (JNumber n) = 0"
| "janet_height (JString s) = 0"
| "janet_height (JSymbol s) = 0"
| "janet_height (JKeyword s) = 0"
| "janet_height (JBuffer a) = 0"
| "janet_height (JTuple items) = items_height items"
| "janet_height (JArray items) = items_height items"
| "janet_height (JTable kvs) = kvs_height kvs"
| "janet_height (JStruct kvs) = kvs_height kvs"
| "janet_height JOther = 0"
| "items_height [] = 0"
| "items_height (x # items) = max (Suc (janet_height x)) (items_height items)"
| "kvs_height [] = 0"
| "kvs_height ((key, val) # kvs) =
     (if key = JNil then kvs_height kvs
      else max (Suc (max (janet_height key) (janet_height val))) (kvs_height kvs))"
  by pat_completeness auto

termination
  by (relation "measure (\<lambda>p. case p of
          Inl x \<Rightarrow> size x
        | Inr (Inl items) \<Rightarrow> size_list size items
        | Inr (Inr kvs) \<Rightarrow> size_list (size_prod size size) kvs)") auto

text \<open>
  The values in which the conversion meets nothing but the depth to stop it: no value
  of another kind, no key that is not a byte sequence, no buffer outside the store and
  none whose allocation has no NUL.
\<close>

function encodable :: "heap \<Rightarrow> janet \<Rightarrow> bool"
and encodable_items :: "heap \<Rightarrow> janet list \<Rightarrow> bool"
and encodable_kvs :: "heap \<Rightarrow> (janet \<times> janet) list \<Rightarrow> bool"
where
  "encodable h JNil = True"
| "encodable h (JBoolean b) = True"
| "encodable h (JNumber n) = True"
| "encodable h (JString s) = True"
| "encodable h (JSymbol s) = True"
| "encodable h (JKeyword s) = True"
| "encodable h (JBuffer a) = (a < length h \<and> NUL \<in> set (data (h ! a)))"
| "encodable h (JTuple items) = encodable_items h items"
| "encodable h (JArray items) = encodable_items h items"
| "encodable h (JTable kvs) = encodable_kvs h kvs"
| "encodable h (JStruct kvs) = encodable_kvs h kvs"
| "encodable h JOther = False"
| "encodable_items h [] = True"
| "encodable_items h (x # items) = (encodable h x \<and> encodable_items h items)"
| "encodable_kvs h [] = True"
| "encodable_kvs h ((key, val) # kvs) =
     (if key = JNil then encodable_kvs h kvs
      else is_bytes key \<and> encodable h key \<and> encodable h val \<and> encodable_kvs h kvs)"
  by pat_completeness auto

termination
  by (relation "measure (\<lambda>p. case p of
          Inl (h, x) \<Rightarrow> size x
        | Inr (Inl (h, items)) \<Rightarrow> size_list size items
        | Inr (Inr (h, kvs)) \<Rightarrow> size_list (size_prod size size) kvs)") auto

text \<open>The same for a document: a value is one level below its array or object.\<close>

function val_height :: "yyjson_val \<Rightarrow> nat"
and arr_height :: "yyjson_val list \<Rightarrow> nat"
and obj_height :: "(yyjson_val \<times> yyjson_val) list \<Rightarrow> nat"
where
  "val_height VNone = 0"
| "val_height (VRaw s) = 0"
| "val_height VNull = 0"
| "val_height (VBool b) = 0"
| "val_height (VNum n) = 0"
| "val_height (VStr s) = 0"
| "val_height (VArr vals) = arr_height vals"
| "val_height (VObj kvs) = obj_height kvs"
| "arr_height [] = 0"
| "arr_height (val # vals) = max (Suc (val_height val)) (arr_height vals)"
| "obj_height [] = 0"
| "obj_height ((key, val) # kvs) = max (Suc (val_height val)) (obj_height kvs)"
  by pat_completeness auto

termination
  by (relation "measure (\<lambda>p. case p of
          Inl v \<Rightarrow> size v
        | Inr (Inl vals) \<Rightarrow> size_list size vals
        | Inr (Inr kvs) \<Rightarrow> size_list (size_prod size size) kvs)") auto

text \<open>
  The documents of JSON text: every node is one of the six JSON types and every key of
  an object is a string.
\<close>

function json_doc :: "yyjson_val \<Rightarrow> bool"
and json_arr :: "yyjson_val list \<Rightarrow> bool"
and json_obj :: "(yyjson_val \<times> yyjson_val) list \<Rightarrow> bool"
where
  "json_doc VNone = False"
| "json_doc (VRaw s) = False"
| "json_doc VNull = True"
| "json_doc (VBool b) = True"
| "json_doc (VNum n) = True"
| "json_doc (VStr s) = True"
| "json_doc (VArr vals) = json_arr vals"
| "json_doc (VObj kvs) = json_obj kvs"
| "json_arr [] = True"
| "json_arr (val # vals) = (json_doc val \<and> json_arr vals)"
| "json_obj [] = True"
| "json_obj ((key, val) # kvs) = ((case key of VStr k \<Rightarrow> True | _ \<Rightarrow> False) \<and> json_doc val \<and> json_obj kvs)"
  by pat_completeness auto

termination
  by (relation "measure (\<lambda>p. case p of
          Inl v \<Rightarrow> size v
        | Inr (Inl vals) \<Rightarrow> size_list size vals
        | Inr (Inr kvs) \<Rightarrow> size_list (size_prod size size) kvs)") auto

text \<open>
  The third argument of \<open>decode_one\<close> at nesting depth \<open>d\<close> of a call with the two
  policies \<open>keyword_keys\<close> and \<open>null_to_nil\<close>.
\<close>

definition packed :: "bool \<Rightarrow> bool \<Rightarrow> int \<Rightarrow> int" where
  "packed keyword_keys null_to_nil d =
     (if null_to_nil then JSON_NULL_TO_NIL else 0) + (if keyword_keys then JSON_KEYWORD_KEY else 0) + d"


subsection \<open>The conversion of a document, as the specification words it\<close>

text \<open>
  The conversion with the two policies as they are passed to the call, and no depth:
  null is the keyword \<open>null\<close>, or nil when \<open>null_to_nil\<close> is set; a boolean, a number
  and a string are themselves; an array is the sequence of its converted elements, in
  order; an object is the mapping into which each entry is put in order, its key as a
  string, or as a keyword when \<open>keyword_keys\<close> is set. Strings are copied as the
  program copies them, as C strings. It is stated for JSON documents; the two node types
  that are not JSON are given nil.
\<close>

fun spec_key :: "bool \<Rightarrow> yyjson_val \<Rightarrow> janet" where
  "spec_key keyword_keys (VStr k) = (if keyword_keys then janet_ckeywordv k else janet_cstringv k)"
| "spec_key keyword_keys v = JNil"

function spec_convert :: "bool \<Rightarrow> bool \<Rightarrow> yyjson_val \<Rightarrow> janet"
and spec_items :: "bool \<Rightarrow> bool \<Rightarrow> yyjson_val list \<Rightarrow> janet list"
and spec_entries :: "bool \<Rightarrow> bool \<Rightarrow> (yyjson_val \<times> yyjson_val) list \<Rightarrow> (janet \<times> janet) list \<Rightarrow>
      (janet \<times> janet) list"
where
  "spec_convert keyword_keys null_to_nil VNone = JNil"
| "spec_convert keyword_keys null_to_nil (VRaw s) = JNil"
| "spec_convert keyword_keys null_to_nil VNull = (if null_to_nil then JNil else JKeyword ''null'')"
| "spec_convert keyword_keys null_to_nil (VBool b) = JBoolean b"
| "spec_convert keyword_keys null_to_nil (VNum n) = JNumber n"
| "spec_convert keyword_keys null_to_nil (VStr s) = janet_cstringv s"
| "spec_convert keyword_keys null_to_nil (VArr vals) = JArray (spec_items keyword_keys null_to_nil vals)"
| "spec_convert keyword_keys null_to_nil (VObj kvs) = JTable (spec_entries keyword_keys null_to_nil kvs [])"
| "spec_items keyword_keys null_to_nil [] = []"
| "spec_items keyword_keys null_to_nil (val # vals) =
     spec_convert keyword_keys null_to_nil val # spec_items keyword_keys null_to_nil vals"
| "spec_entries keyword_keys null_to_nil [] table = table"
| "spec_entries keyword_keys null_to_nil ((key, val) # kvs) table =
     spec_entries keyword_keys null_to_nil kvs
       (janet_table_put table (spec_key keyword_keys key) (spec_convert keyword_keys null_to_nil val))"
  by pat_completeness auto

termination
  by (relation "measure (\<lambda>p. case p of
          Inl (kw, nn, v) \<Rightarrow> size v
        | Inr (Inl (kw, nn, vals)) \<Rightarrow> size_list size vals
        | Inr (Inr (kw, nn, kvs, table)) \<Rightarrow> size_list (size_prod size size) kvs)") auto


text \<open>Arrays inside arrays, \<open>n\<close> levels deep around a nil or a null.\<close>

fun nested :: "nat \<Rightarrow> janet" where
  "nested 0 = JNil"
| "nested (Suc n) = JArray [nested n]"

fun vnested :: "nat \<Rightarrow> yyjson_val" where
  "vnested 0 = VNull"
| "vnested (Suc n) = VArr [vnested n]"


subsection \<open>Reading back what was written\<close>

text \<open>
  Modelled from the spec: the writer and the reader of yyjson, which are not among the
  sources at hand, are taken as parameters of \<open>json_encode\<close> and \<open>json_decode\<close>.
  This is the document that the reader gives for the text that the writer wrote from a
  document under construction, when the two agree: the same nodes, in the same order.
  An integer node is read as the number of its value, which is exact for every integer
  that is a double, as are those that \<open>encode_one\<close> makes from a double of the 64-bit
  range.
\<close>

function imut_copy :: "yyjson_mut_val \<Rightarrow> yyjson_val"
and imut_items :: "yyjson_mut_val list \<Rightarrow> yyjson_val list"
and imut_kvs :: "(yyjson_mut_val \<times> yyjson_mut_val) list \<Rightarrow> (yyjson_val \<times> yyjson_val) list"
where
  "imut_copy MNull = VNull"
| "imut_copy (MBool b) = VBool b"
| "imut_copy (MInt i) = VNum (Fin (of_int (sint i)))"
| "imut_copy (MReal x) = VNum x"
| "imut_copy (MStr s) = VStr s"
| "imut_copy (MArr items) = VArr (imut_items items)"
| "imut_copy (MObj kvs) = VObj (imut_kvs kvs)"
| "imut_items [] = []"
| "imut_items (x # items) = imut_copy x # imut_items items"
| "imut_kvs [] = []"
| "imut_kvs ((key, val) # kvs) = (imut_copy key, imut_copy val) # imut_kvs kvs"
  by pat_completeness auto

termination
  by (relation "measure (\<lambda>p. case p of
          Inl x \<Rightarrow> size x
        | Inr (Inl items) \<Rightarrow> size_list size items
        | Inr (Inr kvs) \<Rightarrow> size_list (size_prod size size) kvs)") auto












section \<open>Properties of the encoder\<close>

subsection \<open>Byte sequences as C strings\<close>

lemma c_prefix_terminated: "c_prefix (s @ [NUL]) = c_prefix s"
  by (induction s) (simp_all add: c_prefix_def)

lemma c_str_terminated: "c_str (s @ [NUL]) = Some (c_prefix s)"
  by (simp add: c_str_def c_prefix_terminated)

lemma encode_bytes_string: "encode_bytes h (JString s) = Inr (MStr (c_prefix s))"
  by (simp add: encode_bytes_def c_str_terminated)

lemma encode_bytes_symbol: "encode_bytes h (JSymbol s) = Inr (MStr (c_prefix s))"
  by (simp add: encode_bytes_def c_str_terminated)

lemma encode_bytes_keyword:
  "encode_bytes h (JKeyword s) = Inr (if c_prefix s = ''null'' then MNull else MStr (c_prefix s))"
  by (simp add: encode_bytes_def c_str_terminated)


lemma c_prefix_null: "c_prefix ''null'' = ''null''"
  by (simp add: c_prefix_def NUL_def)

lemma guard_top: "0 \<le> G \<Longrightarrow> \<not> guard_tripped G 0"
  by (simp add: guard_tripped_def)

subsection \<open>The null token\<close>




subsection \<open>Numbers\<close>

lemma round_test_fin: "double_eq (c_round (Fin q)) (Fin q) = (q \<in> \<int>)"
proof
  assume "double_eq (c_round (Fin q)) (Fin q)"
  then have "q = of_int (if 0 \<le> q then \<lfloor>q + 1 / 2\<rfloor> else \<lceil>q - 1 / 2\<rceil>)"
    by simp
  then show "q \<in> \<int>"
    by (metis Ints_of_int)
next
  assume "q \<in> \<int>"
  then obtain n where "q = of_int n"
    by (auto elim: Ints_cases)
  moreover have "\<lfloor>rat_of_int n + 1 / 2\<rfloor> = n"
    by (rule floor_unique) simp_all
  moreover have "\<lceil>rat_of_int n - 1 / 2\<rceil> = n"
    by (rule ceiling_unique) simp_all
  ultimately show "double_eq (c_round (Fin q)) (Fin q)"
    by simp
qed


lemma c_trunc_of_int: "c_trunc (of_int n) = n"
  by (simp add: c_trunc_def)

lemma sint_int64: "in_int64 n \<Longrightarrow> sint (word_of_int n :: 64 word) = n"
  by (simp add: in_int64_def sint_sbintrunc' signed_take_bit_int_eq_self)

lemma encode_integral:
  "\<not> guard_tripped G depth \<Longrightarrow> in_int64 n \<Longrightarrow>
   encode_one ub G h (JNumber (Fin (of_int n))) depth = Inr (MInt (word_of_int n))"
  by (simp add: round_test_fin c_trunc_of_int del: c_round.simps double_eq.simps)

lemma json_encode_one_arg:
  assumes "encode_one ub G h x 0 = Inr m" and "W False m = Some txt"
    and "NUL \<notin> set txt" and "length txt \<le> INT32_MAX"
  shows "returned_text (json_encode W ub G h [x]) = Some txt"
proof -
  have "c_prefix txt = txt"
    using assms(3) by (auto simp add: c_prefix_def)
  then show ?thesis
    using assms
    by (simp add: json_encode_def arity_ok_def janet_optbuffer_def janet_buffer_def
        janet_buffer_push_bytes_def content_def)
qed

text \<open>
  The number case of \<open>encode_one\<close>. At a depth the guard lets through, a number for
  which \<open>round(x) == x\<close> becomes the integer node of \<open>(int64_t)x\<close> and every other
  number the real node of \<open>x\<close>. An integer \<open>n\<close> of the 64-bit signed range becomes the
  integer node whose value is exactly \<open>n\<close>, and a finite number that is not an integer
  becomes a real node. The digits of a node are written by yyjson: where its writer
  prints the integer node 3 as \<open>3\<close> and the real node 3.5 as \<open>3.5\<close>, encoding the number
  3.0 returns a buffer holding \<open>3\<close> and encoding 3.5 one holding \<open>3.5\<close>.
\<close>

theorem encode_number_branches:
  "(\<not> guard_tripped G depth \<longrightarrow>
      encode_one ub G h (JNumber x) depth =
        Inr (if double_eq (c_round x) x then MInt (int64_of_double ub x) else MReal x) \<and>
      (in_int64 n \<longrightarrow>
         encode_one ub G h (JNumber (Fin (of_int n))) depth = Inr (MInt (word_of_int n)) \<and>
         sint (word_of_int n :: 64 word) = n) \<and>
      (q \<notin> \<int> \<longrightarrow> encode_one ub G h (JNumber (Fin q)) depth = Inr (MReal (Fin q)))) \<and>
   (0 \<le> G \<and> W False (MInt 3) = Some ''3'' \<longrightarrow>
      returned_text (json_encode W ub G h [JNumber (Fin 3)]) = Some ''3'') \<and>
   (0 \<le> G \<and> W False (MReal (Fin (7 / 2))) = Some ''3.5'' \<longrightarrow>
      returned_text (json_encode W ub G h [JNumber (Fin (7 / 2))]) = Some ''3.5'')"
proof (intro conjI impI)
  assume g: "\<not> guard_tripped G depth"
  show "encode_one ub G h (JNumber x) depth =
        Inr (if double_eq (c_round x) x then MInt (int64_of_double ub x) else MReal x)"
    using g by simp
  show "encode_one ub G h (JNumber (Fin q)) depth = Inr (MReal (Fin q))" if "q \<notin> \<int>"
    using g that by (simp add: round_test_fin del: c_round.simps double_eq.simps)
  show "encode_one ub G h (JNumber (Fin (of_int n))) depth = Inr (MInt (word_of_int n))"
    if "in_int64 n"
    using g that by (rule encode_integral)
  show "sint (word_of_int n :: 64 word) = n" if "in_int64 n"
    using that by (rule sint_int64)
next
  assume a: "0 \<le> G \<and> W False (MInt 3) = Some ''3''"
  have "in_int64 3"
    by (simp add: in_int64_def)
  with a have "encode_one ub G h (JNumber (Fin (of_int 3))) 0 = Inr (MInt (word_of_int 3))"
    by (intro encode_integral guard_top) simp_all
  then have e: "encode_one ub G h (JNumber (Fin 3)) 0 = Inr (MInt 3)"
    by simp
  show "returned_text (json_encode W ub G h [JNumber (Fin 3)]) = Some ''3''"
    by (rule json_encode_one_arg [OF e]) (use a in \<open>simp_all add: NUL_def INT32_MAX_def\<close>)
next
  assume a: "0 \<le> G \<and> W False (MReal (Fin (7 / 2))) = Some ''3.5''"
  have "(7 / 2 :: rat) \<notin> \<int>"
  proof
    assume "(7 / 2 :: rat) \<in> \<int>"
    then obtain n :: int where "(7 / 2 :: rat) = of_int n"
      by (auto elim: Ints_cases)
    then have "(7 :: rat) = of_int (2 * n)"
      by simp
    then have "(7 :: int) = 2 * n"
      by (metis of_int_eq_iff of_int_numeral)
    then show False
      by presburger
  qed
  with a have e: "encode_one ub G h (JNumber (Fin (7 / 2))) 0 = Inr (MReal (Fin (7 / 2)))"
    by (simp add: round_test_fin guard_top del: c_round.simps double_eq.simps)
  show "returned_text (json_encode W ub G h [JNumber (Fin (7 / 2))]) = Some ''3.5''"
    by (rule json_encode_one_arg [OF e]) (use a in \<open>simp_all add: NUL_def INT32_MAX_def\<close>)
qed

text \<open>
  The theorem at \<open>2^62\<close>, at 3.5 and at 3.0, with the guard at 1024 and a writer that
  prints the two nodes so.
\<close>

theorem encode_number_branches_witness:
  "encode_one (\<lambda>x. 0) 1024 [] (JNumber (Fin (of_int 4611686018427387904))) 0 =
     Inr (MInt (word_of_int 4611686018427387904)) \<and>
   sint (word_of_int 4611686018427387904 :: 64 word) = 4611686018427387904 \<and>
   encode_one (\<lambda>x. 0) 1024 [] (JNumber (Fin (7 / 2))) 0 = Inr (MReal (Fin (7 / 2))) \<and>
   returned_text (json_encode (\<lambda>p m. if m = MInt 3 then Some ''3'' else Some ''3.5'') (\<lambda>x. 0) 1024 []
     [JNumber (Fin 3)]) = Some ''3'' \<and>
   returned_text (json_encode (\<lambda>p m. if m = MInt 3 then Some ''3'' else Some ''3.5'') (\<lambda>x. 0) 1024 []
     [JNumber (Fin (7 / 2))]) = Some ''3.5''"
proof -
  have "(7 / 2 :: rat) \<notin> \<int>"
  proof
    assume "(7 / 2 :: rat) \<in> \<int>"
    then obtain n :: int where "(7 / 2 :: rat) = of_int n"
      by (auto elim: Ints_cases)
    then have "(7 :: rat) = of_int (2 * n)"
      by simp
    then have "(7 :: int) = 2 * n"
      by (metis of_int_eq_iff of_int_numeral)
    then show False
      by presburger
  qed
  then show ?thesis
    using encode_number_branches [of 1024 0 "\<lambda>x. 0" "[]" "Fin (7 / 2)" 4611686018427387904 "7 / 2"
        "\<lambda>p m. if m = MInt 3 then Some ''3'' else Some ''3.5''"]
    by (simp add: guard_tripped_def in_int64_def)
qed

text \<open>
  Claim C4 at the number \<open>1e19\<close>, which is a double and an integer. It passes
  \<open>round(x) == x\<close>, it is not in the range of \<open>int64_t\<close>, and the cast is made with no
  test of the range: the integer node holds whatever the cast gives, and no 64-bit
  signed value is \<open>10^19\<close>. So the number that is written is not the number that was
  given.
\<close>

theorem integral_beyond_int64:
  "double_eq (c_round (Fin 10000000000000000000)) (Fin 10000000000000000000) \<and>
   \<not> in_int64 (c_trunc 10000000000000000000) \<and>
   encode_one ub 1024 h (JNumber (Fin 10000000000000000000)) 0 =
     Inr (MInt (ub (Fin 10000000000000000000))) \<and>
   sint (ub (Fin 10000000000000000000)) \<noteq> 10000000000000000000"
proof -
  have r: "double_eq (c_round (Fin 10000000000000000000)) (Fin 10000000000000000000)"
    by (simp only: round_test_fin) simp
  have t: "c_trunc 10000000000000000000 = 10000000000000000000"
    using c_trunc_of_int [of 10000000000000000000] by simp
  have n: "\<not> in_int64 (c_trunc 10000000000000000000)"
    by (simp add: t in_int64_def)
  have "sint (ub (Fin 10000000000000000000)) < 2 ^ (LENGTH(64) - 1)"
    by (rule sint_lt)
  then have "sint (ub (Fin 10000000000000000000)) \<noteq> 10000000000000000000"
    by simp
  with r n show ?thesis
    by (simp add: guard_tripped_def del: c_round.simps double_eq.simps)
qed

text \<open>The theorem where the cast gives the least 64-bit value, as it does on x86-64.\<close>

theorem integral_beyond_int64_witness:
  "encode_one (\<lambda>x. - 9223372036854775808) 1024 [] (JNumber (Fin 10000000000000000000)) 0 =
     Inr (MInt (- 9223372036854775808))"
  using integral_beyond_int64 [of "\<lambda>x. - 9223372036854775808" "[]"]
  by simp

subsection \<open>Numbers that are not finite\<close>

text \<open>
  Claim C10. At a depth the guard lets through, no number is refused by \<open>encode_one\<close>:
  every number gives a node. Not-a-number fails \<open>round(x) == x\<close> and becomes a real
  node. The two infinities pass the test and become the integer node of the cast
  \<open>(int64_t)x\<close>, which C does not define for them: the node holds \<open>ub x\<close>, where
  \<open>ub\<close> is arbitrary. At the top level the call therefore never raises an encode
  error for a number.
\<close>

theorem non_finite_numbers_not_rejected:
  "(\<not> guard_tripped G depth \<longrightarrow>
      encode_one ub G h (JNumber NaN) depth = Inr (MReal NaN) \<and>
      encode_one ub G h (JNumber PInf) depth = Inr (MInt (ub PInf)) \<and>
      encode_one ub G h (JNumber NInf) depth = Inr (MInt (ub NInf)) \<and>
      (\<exists>m. encode_one ub G h (JNumber x) depth = Inr m) \<and>
      encode_one ub G h (JNumber x) depth \<noteq> Inl badtype) \<and>
   (0 \<le> G \<longrightarrow> snd (json_encode W ub G h [JNumber x]) \<noteq> Inl (Panic (''encode error: '' @ msg)))"
proof (intro conjI impI)
  assume g: "0 \<le> G"
  then have "\<exists>m. encode_one ub G h (JNumber x) 0 = Inr m"
    by (simp add: guard_top)
  then obtain m where m: "encode_one ub G h (JNumber x) 0 = Inr m" ..
  show "snd (json_encode W ub G h [JNumber x]) \<noteq> Inl (Panic (''encode error: '' @ msg))"
    by (simp add: json_encode_def arity_ok_def janet_optbuffer_def janet_buffer_push_bytes_def m
        Let_def del: encode_one.simps split: option.splits)
qed simp_all

text \<open>The theorem with the guard at 1024, at the top level, for a writer that fails on every node.\<close>

theorem non_finite_numbers_not_rejected_witness:
  "encode_one (\<lambda>x. 5) 1024 [] (JNumber NaN) 0 = Inr (MReal NaN) \<and>
   encode_one (\<lambda>x. 5) 1024 [] (JNumber PInf) 0 = Inr (MInt 5) \<and>
   encode_one (\<lambda>x. 5) 1024 [] (JNumber NInf) 0 = Inr (MInt 5) \<and>
   snd (json_encode (\<lambda>p m. None) (\<lambda>x. 5) 1024 [] [JNumber NaN]) \<noteq> Inl (Panic (''encode error: '' @ ''type not supported''))"
  using non_finite_numbers_not_rejected [of 1024 0 "\<lambda>x. 5" "[]" NaN "\<lambda>p m. None" "''type not supported''"]
  by (simp add: guard_tripped_def)

subsection \<open>Bytes after a NUL\<close>

lemma c_prefix_split: "NUL \<in> set s \<Longrightarrow> \<exists>rest. s = c_prefix s @ NUL # rest"
  unfolding c_prefix_def
  by (induction s) auto

lemma c_prefix_shorter: "NUL \<in> set s \<Longrightarrow> length (c_prefix s) < length s"
  unfolding c_prefix_def
  by (induction s) auto

lemma c_prefix_take: "NUL \<in> set (take n mem) \<Longrightarrow> c_prefix mem = c_prefix (take n mem)"
proof -
  assume a: "NUL \<in> set (take n mem)"
  have "takeWhile (\<lambda>c. c \<noteq> NUL) (take n mem @ drop n mem) = takeWhile (\<lambda>c. c \<noteq> NUL) (take n mem)"
    using a by (intro takeWhile_append1 [where x = NUL]) simp_all
  then show ?thesis
    by (simp add: c_prefix_def)
qed

text \<open>
  Claim C8, as the code has it. Let \<open>x\<close> be a string, symbol, keyword or buffer whose
  content \<open>s\<close> has a NUL byte. At a depth the guard lets through, \<open>encode_one\<close> looks
  at the bytes before the first NUL of \<open>s\<close> only: \<open>x\<close> becomes the string node of
  these bytes, unless the test \<open>janet_keyeq(x, "null")\<close> holds, and then it becomes the
  JSON null. The test holds exactly for a keyword whose bytes before the first NUL are
  \<open>null\<close>. The bytes before the first NUL are fewer than the bytes of \<open>s\<close>, and \<open>s\<close> is
  these bytes, the NUL, and the bytes that were dropped.
\<close>

theorem interior_nul_truncates:
  assumes "\<not> guard_tripped G depth"
    and "bytes_content h x = Some s"
    and "NUL \<in> set s"
  shows "encode_one ub G h x depth = Inr (if janet_keyeq x ''null'' then MNull else MStr (c_prefix s)) \<and>
         janet_keyeq x ''null'' = ((\<exists>k. x = JKeyword k) \<and> c_prefix s = ''null'') \<and>
         length (c_prefix s) < length s \<and>
         (\<exists>rest. s = c_prefix s @ NUL # rest)"
proof -
  have "encode_one ub G h x depth = Inr (if janet_keyeq x ''null'' then MNull else MStr (c_prefix s))"
  proof (cases x)
    case (JBuffer a)
    with assms(2) have a: "a < length h" and s: "s = take (count (h ! a)) (data (h ! a))"
      by (simp_all add: content_def split: if_splits)
    from assms(3) s have "NUL \<in> set (data (h ! a))"
      by (auto dest: in_set_takeD)
    moreover have "c_prefix (data (h ! a)) = c_prefix s"
      using assms(3) unfolding s by (rule c_prefix_take)
    ultimately show ?thesis
      using assms(1) JBuffer a by (simp add: encode_bytes_def c_str_def)
  qed (use assms in \<open>simp_all add: encode_bytes_string encode_bytes_symbol encode_bytes_keyword\<close>)
  moreover have "janet_keyeq x ''null'' = ((\<exists>k. x = JKeyword k) \<and> c_prefix s = ''null'')"
    using assms(2) by (cases x) (auto split: if_splits)
  ultimately show ?thesis
    using assms(3) by (simp add: c_prefix_split c_prefix_shorter)
qed

text \<open>
  The theorem for the string \<open>a\<close>, NUL, \<open>b\<close>, for a buffer with the same content, and
  for the keyword \<open>null\<close>, NUL, \<open>x\<close>.
\<close>

theorem interior_nul_truncates_witness:
  "encode_one (\<lambda>x. 0) 1024 [] (JString [CHR ''a'', NUL, CHR ''b'']) 0 = Inr (MStr ''a'') \<and>
   encode_one (\<lambda>x. 0) 1024 [\<lparr>count = 3, data = [CHR ''a'', NUL, CHR ''b'', CHR ''c'']\<rparr>] (JBuffer 0) 0 =
     Inr (MStr ''a'') \<and>
   encode_one (\<lambda>x. 0) 1024 [] (JKeyword (''null'' @ [NUL, CHR ''x''])) 0 = Inr MNull"
  using interior_nul_truncates [of 1024 0 "[]" "JString [CHR ''a'', NUL, CHR ''b'']" "[CHR ''a'', NUL, CHR ''b'']" "\<lambda>x. 0"]
    interior_nul_truncates [of 1024 0 "[\<lparr>count = 3, data = [CHR ''a'', NUL, CHR ''b'', CHR ''c'']\<rparr>]" "JBuffer 0"
      "[CHR ''a'', NUL, CHR ''b'']" "\<lambda>x. 0"]
    interior_nul_truncates [of 1024 0 "[]" "JKeyword (''null'' @ [NUL, CHR ''x''])" "''null'' @ [NUL, CHR ''x'']" "\<lambda>x. 0"]
  by (simp add: guard_tripped_def c_prefix_def NUL_def content_def)

text \<open>
  Claim C8 as it is written fails: the keyword \<open>null\<close>, NUL, \<open>x\<close> has a NUL inside its
  content, and it is encoded as the JSON null, not as a JSON string.
\<close>

theorem keyword_null_nul_is_null_token:
  "NUL \<in> set (''null'' @ [NUL, CHR ''x'']) \<and>
   bytes_content [] (JKeyword (''null'' @ [NUL, CHR ''x''])) = Some (''null'' @ [NUL, CHR ''x'']) \<and>
   encode_one (\<lambda>x. 0) 1024 [] (JKeyword (''null'' @ [NUL, CHR ''x''])) 0 = Inr MNull \<and>
   MNull \<noteq> MStr ''null''"
  by (simp add: guard_tripped_def encode_bytes_keyword c_prefix_def NUL_def)

subsection \<open>Keys of a mapping\<close>

lemma encode_kvs_skips_nil:
  "encode_kvs ub G h (filter (\<lambda>kv. fst kv \<noteq> JNil) kvs) depth obj = encode_kvs ub G h kvs depth obj"
proof (induction kvs arbitrary: obj)
  case Nil
  show ?case by simp
next
  case (Cons kv kvs)
  obtain k v where kv: "kv = (k, v)"
    by (cases kv)
  show ?case
    unfolding kv using Cons.IH by (simp split: sum.splits)
qed

lemma encode_kvs_append:
  "encode_kvs ub G h (pre @ post) depth obj =
     (case encode_kvs ub G h pre depth obj of
        Inl err \<Rightarrow> Inl err
      | Inr obj' \<Rightarrow> encode_kvs ub G h post depth obj')"
proof (induction pre arbitrary: obj)
  case Nil
  show ?case by simp
next
  case (Cons kv pre)
  obtain k v where kv: "kv = (k, v)"
    by (cases kv)
  show ?case
    unfolding kv using Cons.IH by (simp split: sum.splits)
qed

lemma badkey_distinct: "badkey \<noteq> recurdepth" "badkey \<noteq> badtype" "badkey \<noteq> Undefined"
  by (simp_all add: badkey_def recurdepth_def badtype_def)

lemma encode_bytes_not_badkey: "encode_bytes h x \<noteq> Inl badkey"
  by (simp add: encode_bytes_def badkey_def split: option.splits)

lemma encode_key_not_badkey: "is_bytes k \<Longrightarrow> encode_one ub G h k depth \<noteq> Inl badkey"
  using badkey_distinct(1)
  by (cases k) (auto simp add: encode_bytes_not_badkey)

lemma encode_kvs_badkey_origin:
  "encode_kvs ub G h kvs depth obj = Inl badkey \<Longrightarrow>
     (\<exists>kv \<in> set kvs. fst kv \<noteq> JNil \<and> \<not> is_bytes (fst kv)) \<or>
     (\<exists>kv \<in> set kvs. fst kv \<noteq> JNil \<and> encode_one ub G h (snd kv) (depth + 1) = Inl badkey)"
proof (induction kvs arbitrary: obj)
  case Nil
  then show ?case by simp
next
  case (Cons kv kvs)
  obtain k v where kv: "kv = (k, v)"
    by (cases kv)
  show ?case
  proof (cases "k = JNil \<or> \<not> is_bytes k")
    case True
    then show ?thesis
      using Cons unfolding kv by (auto split: if_splits)
  next
    case False
    then have k: "k \<noteq> JNil" "is_bytes k"
      by simp_all
    from encode_key_not_badkey [OF k(2)] Cons.prems
    consider "encode_one ub G h v (depth + 1) = Inl badkey"
      | subkey subval where "encode_kvs ub G h kvs depth (yyjson_mut_obj_add obj subkey subval) = Inl badkey"
      unfolding kv using k by (auto split: sum.splits)
    then show ?thesis
    proof cases
      case 1
      then show ?thesis
        unfolding kv using k by auto
    next
      case 2
      from Cons.IH [OF 2] show ?thesis
        by auto
    qed
  qed
qed

text \<open>
  Claim C6, as the code has it. The slots of a table or struct are visited in order. A
  slot whose key is nil is skipped: the mapping is encoded as the mapping without those
  slots is, and a struct as the table of the same slots. The message about the key is
  returned for a mapping only if a key of the mapping that is not nil is not a byte
  sequence, or the conversion of a value returned this message. It is returned if, at a
  depth the guard lets through, the slots before the first such key are converted
  without error; so it is for a mapping whose only slot has a number as key.
\<close>

theorem invalid_key_rule:
  "encode_one ub G h (JTable (filter (\<lambda>kv. fst kv \<noteq> JNil) kvs)) depth = encode_one ub G h (JTable kvs) depth \<and>
   encode_one ub G h (JStruct kvs) depth = encode_one ub G h (JTable kvs) depth \<and>
   (encode_one ub G h (JTable kvs) depth = Inl badkey \<longrightarrow>
      (\<exists>kv \<in> set kvs. fst kv \<noteq> JNil \<and> \<not> is_bytes (fst kv)) \<or>
      (\<exists>kv \<in> set kvs. fst kv \<noteq> JNil \<and> encode_one ub G h (snd kv) (depth + 1) = Inl badkey)) \<and>
   (\<not> guard_tripped G depth \<and> encode_kvs ub G h pre depth [] = Inr obj \<and> k \<noteq> JNil \<and> \<not> is_bytes k \<longrightarrow>
      encode_one ub G h (JTable (pre @ (k, v) # post)) depth = Inl badkey) \<and>
   (\<not> guard_tripped G depth \<longrightarrow> encode_one ub G h (JTable [(JNumber n, v)]) depth = Inl badkey)"
proof (intro conjI impI)
  show "encode_one ub G h (JTable (filter (\<lambda>kv. fst kv \<noteq> JNil) kvs)) depth = encode_one ub G h (JTable kvs) depth"
    by (simp add: encode_kvs_skips_nil)
  show "encode_one ub G h (JStruct kvs) depth = encode_one ub G h (JTable kvs) depth"
    by simp
next
  assume a: "encode_one ub G h (JTable kvs) depth = Inl badkey"
  then have "encode_kvs ub G h kvs depth [] = Inl badkey"
    using badkey_distinct(1) by (auto split: if_splits sum.splits)
  then show "(\<exists>kv \<in> set kvs. fst kv \<noteq> JNil \<and> \<not> is_bytes (fst kv)) \<or>
      (\<exists>kv \<in> set kvs. fst kv \<noteq> JNil \<and> encode_one ub G h (snd kv) (depth + 1) = Inl badkey)"
    by (rule encode_kvs_badkey_origin)
next
  assume "\<not> guard_tripped G depth \<and> encode_kvs ub G h pre depth [] = Inr obj \<and> k \<noteq> JNil \<and> \<not> is_bytes k"
  then show "encode_one ub G h (JTable (pre @ (k, v) # post)) depth = Inl badkey"
    by (simp add: encode_kvs_append)
next
  assume "\<not> guard_tripped G depth"
  then show "encode_one ub G h (JTable [(JNumber n, v)]) depth = Inl badkey"
    by simp
qed

text \<open>
  The theorem for the table with an empty slot, the key \<open>a\<close> and the key 1, at the top
  level with the guard at 1024.
\<close>

theorem invalid_key_rule_witness:
  "encode_one (\<lambda>x. 0) 1024 [] (JTable [(JNil, JNil), (JString ''a'', JBoolean True), (JNumber (Fin 1), JBoolean False)]) 0
     = Inl badkey \<and>
   encode_one (\<lambda>x. 0) 1024 [] (JTable [(JNumber (Fin 1), JBoolean False)]) 0 = Inl badkey \<and>
   encode_one (\<lambda>x. 0) 1024 [] (JTable [(JNil, JBoolean False), (JString ''a'', JBoolean True)]) 0
     = Inr (MObj [(MStr ''a'', MBool True)])"
  using invalid_key_rule [of "\<lambda>x. 0" 1024 "[]" "[(JNil, JBoolean False), (JString ''a'', JBoolean True)]" 0
      "[(JNil, JNil), (JString ''a'', JBoolean True)]" "[(MStr ''a'', MBool True)]" "JNumber (Fin 1)" "JBoolean False" "[]" "Fin 1"]
  by (simp add: guard_tripped_def encode_bytes_string c_prefix_def NUL_def)

text \<open>
  Claim C6 as it is written fails: the second key of this table is a number, and the
  error that is raised is the one of the value in the slot before it.
\<close>

theorem invalid_key_not_always_raised:
  "JNumber (Fin 1) \<noteq> JNil \<and> \<not> is_bytes (JNumber (Fin 1)) \<and>
   encode_one (\<lambda>x. 0) 1024 [] (JTable [(JString ''a'', JOther), (JNumber (Fin 1), JBoolean True)]) 0 = Inl badtype \<and>
   badtype \<noteq> badkey"
  by (simp add: guard_tripped_def encode_bytes_string badtype_def badkey_def)

section \<open>Depth and flags\<close>

subsection \<open>The packed argument\<close>

lemma low_bits: "0 \<le> d \<Longrightarrow> d \<le> 0xFFFF \<Longrightarrow> (d::int) AND 0xFFFF = d"
proof -
  assume a: "0 \<le> d" "d \<le> 0xFFFF"
  have "(0xFFFF :: int) = mask 16"
    by (simp add: mask_eq_exp_minus_1)
  then have "d AND 0xFFFF = take_bit 16 d"
    by (simp only: take_bit_eq_mask)
  also have "\<dots> = d"
    using a by (simp add: take_bit_int_eq_self)
  finally show ?thesis .
qed

lemma div_shift: "0 \<le> r \<Longrightarrow> r < m \<Longrightarrow> (q * m + r) div m = (q::int)"
  by simp

lemma mod_shift: "0 \<le> r \<Longrightarrow> r < m \<Longrightarrow> (q * m + r) mod m = (r::int)"
  by simp

lemma packed_split:
  "packed kw nn d = ((if nn then 2 else 0) + (if kw then 1 else 0)) * 65536 + d"
  "packed kw nn d = (if nn then 1 else 0) * 131072 + ((if kw then 65536 else 0) + d)"
  by (simp_all add: packed_def JSON_KEYWORD_KEY_def JSON_NULL_TO_NIL_def)

lemma packed_low_bits:
  assumes "0 \<le> d" "d \<le> 0xFFFF"
  shows "packed kw nn d AND 0xFFFF = d"
proof -
  have m: "(0xFFFF :: int) = mask 16"
    by (simp add: mask_eq_exp_minus_1)
  have "packed kw nn d AND 0xFFFF = take_bit 16 (packed kw nn d)"
    by (simp only: m take_bit_eq_mask)
  also have "\<dots> = packed kw nn d mod 65536"
    by (simp add: take_bit_eq_mod)
  also have "\<dots> = d"
    unfolding packed_split(1) using assms by (intro mod_shift) simp_all
  finally show ?thesis .
qed

lemma and_bit_test: "((x::int) AND 2 ^ n \<noteq> 0) = odd (x div 2 ^ n)"
  by (simp add: and_exp_eq_0_iff_not_bit bit_iff_odd)

lemma packed_null_flag:
  assumes "0 \<le> d" "d \<le> 0xFFFF"
  shows "(packed kw nn d AND JSON_NULL_TO_NIL \<noteq> 0) = nn"
proof -
  have "packed kw nn d div 131072 = (if nn then 1 else 0)"
    unfolding packed_split(2) using assms by (intro div_shift) simp_all
  moreover have "(packed kw nn d AND 2 ^ 17 \<noteq> 0) = odd (packed kw nn d div 2 ^ 17)"
    by (rule and_bit_test)
  ultimately show ?thesis
    by (simp add: JSON_NULL_TO_NIL_def)
qed

lemma packed_keyword_flag:
  assumes "0 \<le> d" "d \<le> 0xFFFF"
  shows "(packed kw nn d AND JSON_KEYWORD_KEY \<noteq> 0) = kw"
proof -
  have "packed kw nn d div 65536 = (if nn then 2 else 0) + (if kw then 1 else 0)"
    unfolding packed_split(1) using assms by (intro div_shift) simp_all
  moreover have "(packed kw nn d AND 2 ^ 16 \<noteq> 0) = odd (packed kw nn d div 2 ^ 16)"
    by (rule and_bit_test)
  ultimately show ?thesis
    by (simp add: JSON_KEYWORD_KEY_def)
qed

lemma packed_Suc: "packed kw nn d + 1 = packed kw nn (d + 1)"
  by (simp add: packed_def)

lemma decode_flags_packed:
  "decode_flags argv =
     packed (1 < length argv \<and> janet_truthy (argv ! 1)) (2 < length argv \<and> janet_truthy (argv ! 2)) 0"
  by (simp add: decode_flags_def packed_def JSON_KEYWORD_KEY_def JSON_NULL_TO_NIL_def Let_def)

lemma guard_iff: "0 \<le> d \<Longrightarrow> d \<le> 0xFFFF \<Longrightarrow> guard_tripped G d = (G < d)"
  by (simp add: guard_tripped_def low_bits)

lemma guard_packed_iff: "0 \<le> d \<Longrightarrow> d \<le> 0xFFFF \<Longrightarrow> guard_tripped G (packed kw nn d) = (G < d)"
  by (simp add: guard_tripped_def packed_low_bits)

subsection \<open>The guard\<close>

lemma tripped_encode: "guard_tripped G d \<Longrightarrow> encode_one ub G h x d = Inl recurdepth"
  by (cases x) simp_all

lemma tripped_decode: "guard_tripped G d \<Longrightarrow> decode_one G v d = Inl recurdepth"
  by (cases v) simp_all

lemma encode_deep_fails:
  "0 \<le> d \<Longrightarrow> d \<le> G + 1 \<Longrightarrow> G < 0xFFFF \<Longrightarrow> G < d + int (janet_height x) \<Longrightarrow>
     isl (encode_one ub G h x d)"
  "0 \<le> d \<Longrightarrow> d \<le> G \<Longrightarrow> G < 0xFFFF \<Longrightarrow> G < d + int (items_height xs) \<Longrightarrow>
     isl (encode_items ub G h xs d array)"
  "0 \<le> d \<Longrightarrow> d \<le> G \<Longrightarrow> G < 0xFFFF \<Longrightarrow> G < d + int (kvs_height kvs) \<Longrightarrow>
     isl (encode_kvs ub G h kvs d obj)"
proof (induction ub G h x d and ub G h xs d array and ub G h kvs d obj
    rule: encode_one_encode_items_encode_kvs.induct)
  case (8 ub G h items depth)
  show ?case
  proof (cases "guard_tripped G depth")
    case True
    then show ?thesis by simp
  next
    case False
    then have "depth \<le> G"
      using "8.prems" by (simp add: guard_iff)
    then have "isl (encode_items ub G h items depth [])"
      using "8.IH" [OF False] "8.prems" by simp
    then show ?thesis
      using False by (auto simp add: isl_def)
  qed
next
  case (9 ub G h items depth)
  show ?case
  proof (cases "guard_tripped G depth")
    case True
    then show ?thesis by simp
  next
    case False
    then have "depth \<le> G"
      using "9.prems" by (simp add: guard_iff)
    then have "isl (encode_items ub G h items depth [])"
      using "9.IH" [OF False] "9.prems" by simp
    then show ?thesis
      using False by (auto simp add: isl_def)
  qed
next
  case (10 ub G h kvs depth)
  show ?case
  proof (cases "guard_tripped G depth")
    case True
    then show ?thesis by simp
  next
    case False
    then have "depth \<le> G"
      using "10.prems" by (simp add: guard_iff)
    then have "isl (encode_kvs ub G h kvs depth [])"
      using "10.IH" [OF False] "10.prems" by simp
    then show ?thesis
      using False by (auto simp add: isl_def)
  qed
next
  case (11 ub G h kvs depth)
  show ?case
  proof (cases "guard_tripped G depth")
    case True
    then show ?thesis by simp
  next
    case False
    then have "depth \<le> G"
      using "11.prems" by (simp add: guard_iff)
    then have "isl (encode_kvs ub G h kvs depth [])"
      using "11.IH" [OF False] "11.prems" by simp
    then show ?thesis
      using False by (auto simp add: isl_def)
  qed
next
  case (14 ub G h x items depth array)
  show ?case
  proof (cases "encode_one ub G h x (depth + 1)")
    case (Inl e)
    then show ?thesis by simp
  next
    case (Inr subval)
    have "\<not> G < depth + 1 + int (janet_height x)"
      using "14.IH"(1) [of] "14.prems" Inr by auto
    then have "G < depth + int (items_height items)"
      using "14.prems" by (simp add: max_def split: if_splits)
    then show ?thesis
      using "14.IH"(2) [OF Inr] "14.prems" Inr by simp
  qed
next
  case (16 ub G h key val kvs depth obj)
  show ?case
  proof (cases "key = JNil")
    case True
    then show ?thesis
      using 16 by simp
  next
    case False
    show ?thesis
    proof (cases "is_bytes key")
      case nb: False
      with False show ?thesis by simp
    next
      case True
      show ?thesis
      proof (cases "encode_one ub G h key (depth + 1)")
        case (Inl e)
        then show ?thesis using False True by simp
      next
        case k: (Inr subkey)
        show ?thesis
        proof (cases "encode_one ub G h val (depth + 1)")
          case (Inl e)
          then show ?thesis using False True k by simp
        next
          case v: (Inr subval)
          have "\<not> G < depth + 1 + int (janet_height key)"
            using "16.IH"(2) [OF False] True "16.prems" k by auto
          moreover have "\<not> G < depth + 1 + int (janet_height val)"
            using "16.IH"(3) [OF False _ k] True "16.prems" v by auto
          ultimately have "G < depth + int (kvs_height kvs)"
            using "16.prems" False by (simp add: max_def split: if_splits)
          then show ?thesis
            using "16.IH"(4) [OF False _ k v] True False "16.prems" k v by simp
        qed
      qed
    qed
  qed
qed (auto simp add: guard_iff split: sum.splits)


lemma encode_bytes_encodable:
  "is_bytes x \<Longrightarrow> encodable h x \<Longrightarrow> \<exists>m. encode_bytes h x = Inr m"
  by (cases x) (simp_all add: encode_bytes_string encode_bytes_symbol encode_bytes_keyword
      encode_bytes_def c_str_def)

lemma encode_encodable:
  "encodable h x \<Longrightarrow> 0 \<le> d \<Longrightarrow> d \<le> G + 1 \<Longrightarrow> G < 0xFFFF \<Longrightarrow>
     (G < d + int (janet_height x) \<longrightarrow> encode_one ub G h x d = Inl recurdepth) \<and>
     (d + int (janet_height x) \<le> G \<longrightarrow> (\<exists>m. encode_one ub G h x d = Inr m))"
  "encodable_items h xs \<Longrightarrow> 0 \<le> d \<Longrightarrow> d \<le> G \<Longrightarrow> G < 0xFFFF \<Longrightarrow>
     (G < d + int (items_height xs) \<longrightarrow> encode_items ub G h xs d array = Inl recurdepth) \<and>
     (d + int (items_height xs) \<le> G \<longrightarrow> (\<exists>ys. encode_items ub G h xs d array = Inr ys))"
  "encodable_kvs h kvs \<Longrightarrow> 0 \<le> d \<Longrightarrow> d \<le> G \<Longrightarrow> G < 0xFFFF \<Longrightarrow>
     (G < d + int (kvs_height kvs) \<longrightarrow> encode_kvs ub G h kvs d obj = Inl recurdepth) \<and>
     (d + int (kvs_height kvs) \<le> G \<longrightarrow> (\<exists>obj'. encode_kvs ub G h kvs d obj = Inr obj'))"
proof (induction ub G h x d and ub G h xs d array and ub G h kvs d obj
    rule: encode_one_encode_items_encode_kvs.induct)
  case (8 ub G h items depth)
  show ?case
  proof (cases "guard_tripped G depth")
    case True
    then show ?thesis
      using "8.prems" by (simp add: guard_iff)
  next
    case False
    then have d: "depth \<le> G"
      using "8.prems" by (simp add: guard_iff)
    show ?thesis
      using "8.IH" [OF False] "8.prems" d False by auto
  qed
next
  case (9 ub G h items depth)
  show ?case
  proof (cases "guard_tripped G depth")
    case True
    then show ?thesis
      using "9.prems" by (simp add: guard_iff)
  next
    case False
    then have d: "depth \<le> G"
      using "9.prems" by (simp add: guard_iff)
    show ?thesis
      using "9.IH" [OF False] "9.prems" d False by auto
  qed
next
  case (10 ub G h kvs depth)
  show ?case
  proof (cases "guard_tripped G depth")
    case True
    then show ?thesis
      using "10.prems" by (simp add: guard_iff)
  next
    case False
    then have d: "depth \<le> G"
      using "10.prems" by (simp add: guard_iff)
    show ?thesis
      using "10.IH" [OF False] "10.prems" d False by auto
  qed
next
  case (11 ub G h kvs depth)
  show ?case
  proof (cases "guard_tripped G depth")
    case True
    then show ?thesis
      using "11.prems" by (simp add: guard_iff)
  next
    case False
    then have d: "depth \<le> G"
      using "11.prems" by (simp add: guard_iff)
    show ?thesis
      using "11.IH" [OF False] "11.prems" d False by auto
  qed
next
  case (14 ub G h x items depth array)
  from "14.prems" have e: "encodable h x" "encodable_items h items"
    by simp_all
  note x = "14.IH"(1) [OF e(1)]
  show ?case
  proof (cases "G < depth + 1 + int (janet_height x)")
    case True
    then have "encode_one ub G h x (depth + 1) = Inl recurdepth"
      using x "14.prems" by simp
    then show ?thesis
      using True by simp
  next
    case False
    then obtain subval where s: "encode_one ub G h x (depth + 1) = Inr subval"
      using x "14.prems" by auto
    show ?thesis
      using "14.IH"(2) [OF s e(2)] "14.prems" s False by (simp add: max_def)
  qed
next
  case (16 ub G h key val kvs depth obj)
  show ?case
  proof (cases "key = JNil")
    case True
    then show ?thesis
      using 16 by simp
  next
    case False
    with "16.prems" have e: "is_bytes key" "encodable h key" "encodable h val" "encodable_kvs h kvs"
      by simp_all
    note k = "16.IH"(2) [OF False _ e(2)]
    show ?thesis
    proof (cases "G < depth + 1 + int (janet_height key)")
      case True
      then have "encode_one ub G h key (depth + 1) = Inl recurdepth"
        using k e "16.prems" by simp
      then show ?thesis
        using True False e by simp
    next
      case nk: False
      then obtain subkey where sk: "encode_one ub G h key (depth + 1) = Inr subkey"
        using k e "16.prems" by auto
      note v = "16.IH"(3) [OF False _ sk e(3)]
      show ?thesis
      proof (cases "G < depth + 1 + int (janet_height val)")
        case True
        then have "encode_one ub G h val (depth + 1) = Inl recurdepth"
          using v e "16.prems" by simp
        then show ?thesis
          using True False e sk by simp
      next
        case nv: False
        then obtain subval where sv: "encode_one ub G h val (depth + 1) = Inr subval"
          using v e "16.prems" by auto
        show ?thesis
          using "16.IH"(4) [OF False _ sk sv e(4)] "16.prems" e False sk sv nk nv
          by (simp add: max_def)
      qed
    qed
  qed
qed (auto simp add: guard_iff encode_bytes_string encode_bytes_symbol encode_bytes_keyword
    encode_bytes_def c_str_def)


subsection \<open>The decoder against the conversion of the specification\<close>

lemma decode_json_doc:
  "json_doc v \<Longrightarrow> 0 \<le> d \<Longrightarrow> d \<le> G + 1 \<Longrightarrow> G < 0xFFFF \<Longrightarrow>
     (G < d + int (val_height v) \<longrightarrow> decode_one G v (packed kw nn d) = Inl recurdepth) \<and>
     (d + int (val_height v) \<le> G \<longrightarrow> decode_one G v (packed kw nn d) = Inr (spec_convert kw nn v))"
  "json_arr vals \<Longrightarrow> 0 \<le> d \<Longrightarrow> d \<le> G \<Longrightarrow> G < 0xFFFF \<Longrightarrow>
     (G < d + int (arr_height vals) \<longrightarrow> decode_arr G vals (packed kw nn d) array = Inl recurdepth) \<and>
     (d + int (arr_height vals) \<le> G \<longrightarrow>
        decode_arr G vals (packed kw nn d) array = Inr (array @ spec_items kw nn vals))"
  "json_obj kvs \<Longrightarrow> 0 \<le> d \<Longrightarrow> d \<le> G \<Longrightarrow> G < 0xFFFF \<Longrightarrow>
     (G < d + int (obj_height kvs) \<longrightarrow> decode_obj G kvs (packed kw nn d) table = Inl recurdepth) \<and>
     (d + int (obj_height kvs) \<le> G \<longrightarrow>
        decode_obj G kvs (packed kw nn d) table = Inr (spec_entries kw nn kvs table))"
proof (induction v and vals and kvs arbitrary: d and d array and d table
    rule: val_height_arr_height_obj_height.induct)
  case (7 vals)
  show ?case
  proof (cases "G < d")
    case True
    then show ?thesis
      using "7.prems" by (simp add: guard_packed_iff)
  next
    case False
    then show ?thesis
      using "7.IH" [of d "[]"] "7.prems" by (auto simp add: guard_packed_iff)
  qed
next
  case (8 kvs)
  show ?case
  proof (cases "G < d")
    case True
    then show ?thesis
      using "8.prems" by (simp add: guard_packed_iff)
  next
    case False
    then show ?thesis
      using "8.IH" [of d "[]"] "8.prems" by (auto simp add: guard_packed_iff)
  qed
next
  case (10 val vals)
  from "10.prems" have j: "json_doc val" "json_arr vals"
    by simp_all
  note v = "10.IH"(1) [OF j(1), of "d + 1"]
  show ?case
  proof (cases "G < d + 1 + int (val_height val)")
    case True
    then have "decode_one G val (packed kw nn (d + 1)) = Inl recurdepth"
      using v "10.prems" by simp
    then show ?thesis
      using True by (simp add: packed_Suc)
  next
    case False
    then have "decode_one G val (packed kw nn (d + 1)) = Inr (spec_convert kw nn val)"
      using v "10.prems" by simp
    then show ?thesis
      using "10.IH"(2) [OF j(2), of d "array @ [spec_convert kw nn val]"] "10.prems" False
      by (simp add: packed_Suc max_def)
  qed
next
  case (12 key val kvs)
  from "12.prems" obtain k where j: "key = VStr k" "json_doc val" "json_obj kvs"
    by (cases key) simp_all
  have d: "0 \<le> d" "d \<le> 0xFFFF"
    using "12.prems" by simp_all
  note v = "12.IH"(1) [OF j(2), of "d + 1"]
  show ?case
  proof (cases "G < d + 1 + int (val_height val)")
    case True
    then have "decode_one G val (packed kw nn (d + 1)) = Inl recurdepth"
      using v "12.prems" by simp
    then show ?thesis
      using True j by (simp add: packed_Suc)
  next
    case False
    then have "decode_one G val (packed kw nn (d + 1)) = Inr (spec_convert kw nn val)"
      using v "12.prems" by simp
    moreover have "(if packed kw nn d AND JSON_KEYWORD_KEY \<noteq> 0 then janet_ckeywordv k else janet_cstringv k)
        = spec_key kw key"
      by (simp add: j packed_keyword_flag [OF d])
    moreover note "12.IH"(2) [OF j(3), of d "janet_table_put table (spec_key kw key) (spec_convert kw nn val)"]
    ultimately show ?thesis
      using "12.prems"(2-) False j(1)
      by (simp add: packed_Suc max_def del: spec_key.simps)
  qed
qed (auto simp add: guard_packed_iff packed_null_flag janet_ckeywordv_def c_prefix_null)


subsection \<open>Values nested beyond the guard\<close>

lemma nested_height: "janet_height (nested n) = n" "encodable h (nested n)"
  by (induction n) simp_all

lemma vnested_height: "val_height (vnested n) = n" "json_doc (vnested n)"
  by (induction n) simp_all

lemma json_encode_error:
  "arity_ok argv \<Longrightarrow> encode_one ub G h (argv ! 0) 0 = Inl (Err msg) \<Longrightarrow>
     json_encode W ub G h argv = (h, Inl (Panic (''encode error: '' @ msg)))"
  by (simp add: json_encode_def)

lemma json_decode_string:
  "arity_ok argv \<Longrightarrow> argv ! 0 = JString s \<Longrightarrow> R (c_prefix s) = Inr v \<Longrightarrow>
     json_decode R G h argv =
       (h, case decode_one G v (decode_flags argv) of
             Inl (Err err_msg) \<Rightarrow> Inl (Panic (''decode error: '' @ err_msg))
           | Inl e \<Rightarrow> Inl e
           | Inr ret \<Rightarrow> Inr ret)"
  by (simp add: json_decode_def decode_source_def c_str_terminated split: sum.splits error.splits)

text \<open>
  Claim C5, as the code has it, for a guard \<open>G\<close> below \<open>0xFFFF\<close>. Both functions
  start with the same test on the same constant: entered at a depth beyond \<open>G\<close>, each
  returns \<open>recursed too deeply\<close>, whatever the node. A value nested more than \<open>G\<close>
  levels is never encoded; the error is \<open>recursed too deeply\<close> when the value holds
  nothing else that stops the conversion, and the call then panics with
  \<open>encode error: recursed too deeply\<close> and leaves the store as it was. A JSON document
  nested more than \<open>G\<close> levels is never decoded: the error is \<open>recursed too deeply\<close>
  and the call panics with \<open>decode error: recursed too deeply\<close>. The threshold is the
  same on both sides: what is nested \<open>G\<close> levels or fewer is converted.
\<close>

theorem recursion_guard:
  "(guard_tripped G depth \<longrightarrow>
      encode_one ub G h x depth = Inl recurdepth \<and> decode_one G v depth = Inl recurdepth) \<and>
   (0 \<le> G \<and> G < 0xFFFF \<and> G < int (janet_height x) \<longrightarrow>
      isl (encode_one ub G h x 0) \<and>
      (encodable h x \<longrightarrow> encode_one ub G h x 0 = Inl recurdepth) \<and>
      (encodable h x \<and> arity_ok argv \<and> argv ! 0 = x \<longrightarrow>
         json_encode W ub G h argv = (h, Inl (Panic ''encode error: recursed too deeply'')))) \<and>
   (0 \<le> G \<and> G < 0xFFFF \<and> G < int (val_height v) \<and> json_doc v \<longrightarrow>
      decode_one G v (decode_flags argv) = Inl recurdepth \<and>
      (arity_ok argv \<and> argv ! 0 = JString s \<and> R (c_prefix s) = Inr v \<longrightarrow>
         json_decode R G h argv = (h, Inl (Panic ''decode error: recursed too deeply'')))) \<and>
   (0 \<le> G \<and> G < 0xFFFF \<and> int (janet_height x) \<le> G \<and> encodable h x \<longrightarrow>
      (\<exists>m. encode_one ub G h x 0 = Inr m)) \<and>
   (0 \<le> G \<and> G < 0xFFFF \<and> int (val_height v) \<le> G \<and> json_doc v \<longrightarrow>
      (\<exists>ret. decode_one G v (decode_flags argv) = Inr ret))"
proof (intro conjI impI)
  assume "guard_tripped G depth"
  then show "encode_one ub G h x depth = Inl recurdepth" "decode_one G v depth = Inl recurdepth"
    by (simp_all add: tripped_encode tripped_decode)
next
  assume a: "0 \<le> G \<and> G < 0xFFFF \<and> G < int (janet_height x)"
  then show "isl (encode_one ub G h x 0)"
    by (intro encode_deep_fails(1)) simp_all
  show r: "encode_one ub G h x 0 = Inl recurdepth" if "encodable h x"
    using encode_encodable(1) [OF that, of 0 G ub] a by simp
  show "json_encode W ub G h argv = (h, Inl (Panic ''encode error: recursed too deeply''))"
    if "encodable h x \<and> arity_ok argv \<and> argv ! 0 = x"
    using json_encode_error [of argv ub G h "''recursed too deeply''" W] r that
    by (simp add: recurdepth_def)
next
  assume a: "0 \<le> G \<and> G < 0xFFFF \<and> G < int (val_height v) \<and> json_doc v"
  then show r: "decode_one G v (decode_flags argv) = Inl recurdepth"
    using decode_json_doc(1) [of v 0 G] by (simp add: decode_flags_packed)
  show "json_decode R G h argv = (h, Inl (Panic ''decode error: recursed too deeply''))"
    if "arity_ok argv \<and> argv ! 0 = JString s \<and> R (c_prefix s) = Inr v"
    using json_decode_string [of argv s R v G h] r that
    by (simp add: recurdepth_def)
next
  assume a: "0 \<le> G \<and> G < 0xFFFF \<and> int (janet_height x) \<le> G \<and> encodable h x"
  then show "\<exists>m. encode_one ub G h x 0 = Inr m"
    using encode_encodable(1) [of h x 0 G ub] by simp
next
  assume a: "0 \<le> G \<and> G < 0xFFFF \<and> int (val_height v) \<le> G \<and> json_doc v"
  then show "\<exists>ret. decode_one G v (decode_flags argv) = Inr ret"
    using decode_json_doc(1) [of v 0 G] by (simp add: decode_flags_packed)
qed

text \<open>The theorem with the guard at 1024, for arrays nested 1025 and 1024 levels deep.\<close>

theorem recursion_guard_witness:
  "encode_one (\<lambda>x. 0) 1024 [] (nested 1025) 0 = Inl recurdepth \<and>
   json_encode (\<lambda>p m. None) (\<lambda>x. 0) 1024 [] [nested 1025] = ([], Inl (Panic ''encode error: recursed too deeply'')) \<and>
   decode_one 1024 (vnested 1025) (decode_flags [JString ''x'']) = Inl recurdepth \<and>
   json_decode (\<lambda>src. Inr (vnested 1025)) 1024 [] [JString ''x''] = ([], Inl (Panic ''decode error: recursed too deeply'')) \<and>
   (\<exists>m. encode_one (\<lambda>x. 0) 1024 [] (nested 1024) 0 = Inr m) \<and>
   (\<exists>ret. decode_one 1024 (vnested 1024) (decode_flags [JString ''x'']) = Inr ret)"
proof -
  note a = recursion_guard [where G = 1024 and depth = 0 and ub = "\<lambda>x. 0" and h = "[]" and x = "nested 1025"
      and v = "vnested 1025" and W = "\<lambda>p m. None" and s = "''x''" and R = "\<lambda>src. Inr (vnested 1025)"]
  note b = recursion_guard [where G = 1024 and depth = 0 and ub = "\<lambda>x. 0" and h = "[]" and x = "nested 1024"
      and v = "vnested 1024" and W = "\<lambda>p m. None" and s = "''x''" and R = "\<lambda>src. Inr (vnested 1024)"]
  show ?thesis
  proof (intro conjI)
    show "encode_one (\<lambda>x. 0) 1024 [] (nested 1025) 0 = Inl recurdepth"
      using a by (simp add: nested_height)
    show "json_encode (\<lambda>p m. None) (\<lambda>x. 0) 1024 [] [nested 1025] = ([], Inl (Panic ''encode error: recursed too deeply''))"
      using a [where argv = "[nested 1025]"] by (simp add: nested_height arity_ok_def)
    show "decode_one 1024 (vnested 1025) (decode_flags [JString ''x'']) = Inl recurdepth"
      using a [where argv = "[JString ''x'']"] by (simp add: vnested_height)
    show "json_decode (\<lambda>src. Inr (vnested 1025)) 1024 [] [JString ''x''] = ([], Inl (Panic ''decode error: recursed too deeply''))"
      using a [where argv = "[JString ''x'']"] by (simp add: vnested_height arity_ok_def)
    show "\<exists>m. encode_one (\<lambda>x. 0) 1024 [] (nested 1024) 0 = Inr m"
      using b by (simp add: nested_height)
    show "\<exists>ret. decode_one 1024 (vnested 1024) (decode_flags [JString ''x'']) = Inr ret"
      using b [where argv = "[JString ''x'']"] by (simp add: vnested_height)
  qed
qed

text \<open>
  Claim C5 as it is written fails: this array is nested beyond the guard, and encoding
  it raises the error of its first item, a value of a kind that has no JSON form.
\<close>

theorem unsupported_value_before_depth:
  "1024 < int (janet_height (JArray [JOther, nested 1025])) \<and>
   encode_one (\<lambda>x. 0) 1024 [] (JArray [JOther, nested 1025]) 0 = Inl badtype \<and>
   badtype \<noteq> recurdepth"
  by (simp add: nested_height guard_tripped_def badtype_def recurdepth_def)

subsection \<open>The two policies\<close>

text \<open>
  Claim C3. Let the document be a JSON document nested no deeper than the guard \<open>G\<close>,
  itself below \<open>0xFFFF\<close>. Then \<open>decode_one\<close>, called with the flags that
  \<open>json_decode\<close> packs from its second and third argument, returns the conversion of
  the specification under the two policies: at every depth a null is nil when the third
  argument is truthy and the keyword \<open>null\<close> when not, and a key is a keyword when the
  second argument is truthy and a string when not. The same holds for a call of
  \<open>decode_one\<close> at any depth \<open>d\<close> that leaves room for the document, and for
  \<open>json_decode\<close> on a string that the reader parses to the document.
\<close>

theorem flags_at_every_depth:
  assumes "json_doc v" and "int (val_height v) \<le> G" and "G < 0xFFFF"
  shows "decode_one G v (decode_flags argv) =
           Inr (spec_convert (1 < length argv \<and> janet_truthy (argv ! 1))
                  (2 < length argv \<and> janet_truthy (argv ! 2)) v) \<and>
         (0 \<le> d \<and> d + int (val_height v) \<le> G \<longrightarrow>
            decode_one G v (packed kw nn d) = Inr (spec_convert kw nn v)) \<and>
         (arity_ok argv \<and> argv ! 0 = JString s \<and> R (c_prefix s) = Inr v \<longrightarrow>
            json_decode R G h argv =
              (h, Inr (spec_convert (1 < length argv \<and> janet_truthy (argv ! 1))
                         (2 < length argv \<and> janet_truthy (argv ! 2)) v)))"
proof (intro conjI impI)
  show top: "decode_one G v (decode_flags argv) =
      Inr (spec_convert (1 < length argv \<and> janet_truthy (argv ! 1)) (2 < length argv \<and> janet_truthy (argv ! 2)) v)"
    using decode_json_doc(1) [OF assms(1), of 0 G] assms(2,3)
    by (simp add: decode_flags_packed)
  show "json_decode R G h argv =
      (h, Inr (spec_convert (1 < length argv \<and> janet_truthy (argv ! 1)) (2 < length argv \<and> janet_truthy (argv ! 2)) v))"
    if "arity_ok argv \<and> argv ! 0 = JString s \<and> R (c_prefix s) = Inr v"
    using json_decode_string [of argv s R v G h] that top by simp
next
  assume "0 \<le> d \<and> d + int (val_height v) \<le> G"
  then show "decode_one G v (packed kw nn d) = Inr (spec_convert kw nn v)"
    using decode_json_doc(1) [OF assms(1), of d G] assms(3) by simp
qed

text \<open>
  The theorem for the document \<open>{"a": [null, {"b": null, "c": [null]}]}\<close>, with both
  arguments true and with both missing, and the guard at 1024. With nil for null the key
  \<open>b\<close> is not in the inner table: \<open>janet_table_put\<close> of nil puts nothing.
\<close>

theorem flags_at_every_depth_witness:
  "decode_one 1024 (VObj [(VStr ''a'', VArr [VNull, VObj [(VStr ''b'', VNull), (VStr ''c'', VArr [VNull])]])])
     (decode_flags [JString ''s'', JBoolean True, JBoolean True]) =
     Inr (JTable [(JKeyword ''a'', JArray [JNil, JTable [(JKeyword ''c'', JArray [JNil])]])]) \<and>
   decode_one 1024 (VObj [(VStr ''a'', VArr [VNull, VObj [(VStr ''b'', VNull), (VStr ''c'', VArr [VNull])]])])
     (decode_flags [JString ''s'']) =
     Inr (JTable [(JString ''a'', JArray [JKeyword ''null'',
            JTable [(JString ''b'', JKeyword ''null''), (JString ''c'', JArray [JKeyword ''null''])]])])"
  using flags_at_every_depth [where G = 1024 and argv = "[JString ''s'', JBoolean True, JBoolean True]"
      and v = "VObj [(VStr ''a'', VArr [VNull, VObj [(VStr ''b'', VNull), (VStr ''c'', VArr [VNull])]])]"]
    flags_at_every_depth [where G = 1024 and argv = "[JString ''s'']"
      and v = "VObj [(VStr ''a'', VArr [VNull, VObj [(VStr ''b'', VNull), (VStr ''c'', VArr [VNull])]])]"]
  by (simp add: janet_table_put_def janet_cstringv_def janet_ckeywordv_def c_prefix_def NUL_def
      del: decode_one.simps)

section \<open>Buffers\<close>

subsection \<open>The sink of encode\<close>

lemma push_bytes_content:
  "janet_buffer_push_bytes b bs = Inr b' \<Longrightarrow> content b' = content b @ bs"
  by (auto simp add: janet_buffer_push_bytes_def content_def split: if_splits)

lemma push_bytes_count:
  "janet_buffer_push_bytes b bs = Inr b' \<Longrightarrow> count b' = count b + length bs"
  by (auto simp add: janet_buffer_push_bytes_def split: if_splits)

lemma janet_buffer_empty: "content (janet_buffer n) = []"
  by (simp add: janet_buffer_def content_def)

text \<open>
  Claim C7. Let a call of \<open>json_encode\<close> return. With a third argument that is not
  nil, the argument is a buffer of the store and the call returns this same buffer; the
  store has the buffers it had; the content of the sink is its content before the call
  followed by the JSON text, the C string that the writer gave for the root; and every
  other buffer is as it was. With no third argument, or nil, the call returns a buffer
  that was not in the store, whose content is the JSON text, and the buffers of the
  store are as they were.
\<close>

theorem sink_is_appended_to:
  assumes "json_encode W ub G h argv = (h', Inr r)"
  shows "(2 < length argv \<and> argv ! 2 \<noteq> JNil \<longrightarrow>
           (\<exists>a m txt. argv ! 2 = JBuffer a \<and> r = JBuffer a \<and> a < length h \<and> length h' = length h \<and>
              encode_one ub G h (argv ! 0) 0 = Inr m \<and> W (janet_truthy (argv ! 1)) m = Some txt \<and>
              content (h' ! a) = content (h ! a) @ c_prefix txt \<and>
              (\<forall>a'. a' < length h \<and> a' \<noteq> a \<longrightarrow> h' ! a' = h ! a'))) \<and>
         (\<not> (2 < length argv \<and> argv ! 2 \<noteq> JNil) \<longrightarrow>
           (\<exists>m txt. r = JBuffer (length h) \<and> length h' = Suc (length h) \<and> take (length h) h' = h \<and>
              encode_one ub G h (argv ! 0) 0 = Inr m \<and>
              W (1 < length argv \<and> janet_truthy (argv ! 1)) m = Some txt \<and>
              content (h' ! length h) = c_prefix txt))"
proof -
  from assms have ar: "arity_ok argv"
    by (auto simp add: json_encode_def split: if_splits)
  from assms ar obtain m where m: "encode_one ub G h (argv ! 0) 0 = Inr m"
    by (auto simp add: json_encode_def split: sum.splits error.splits)
  define json where "json = W (1 < length argv \<and> janet_truthy (argv ! 1)) m"
  define dflt_len where "dflt_len = (case json of None \<Rightarrow> 0 | Some jt \<Rightarrow> length jt)"
  from assms ar m obtain h1 a jt b where
    ob: "janet_optbuffer h argv 2 dflt_len = Inr (h1, a)" and
    jt: "json = Some jt" and
    pb: "janet_buffer_push_bytes (h1 ! a) (c_prefix jt) = Inr b" and
    res: "h' = h1[a := b]" "r = JBuffer a"
    unfolding json_def dflt_len_def
    by (auto simp add: json_encode_def Let_def split: sum.splits option.splits prod.splits)
  show ?thesis
  proof (cases "2 < length argv \<and> argv ! 2 \<noteq> JNil")
    case True
    with ob obtain a0 where a0: "argv ! 2 = JBuffer a0" "a0 < length h" "h1 = h" "a = a0"
      by (auto simp add: janet_optbuffer_def split: janet.splits if_splits)
    have "content (h' ! a) = content (h ! a) @ c_prefix jt"
      using push_bytes_content [OF pb] a0 res by simp
    moreover have "W (janet_truthy (argv ! 1)) m = Some jt"
      using jt True by (simp add: json_def)
    ultimately show ?thesis
      using True a0 res m by auto
  next
    case False
    with ob have n: "h1 = h @ [janet_buffer dflt_len]" "a = length h"
      by (auto simp add: janet_optbuffer_def split: if_splits)
    have "content (h' ! a) = c_prefix jt"
      using push_bytes_content [OF pb] n res by (simp add: janet_buffer_empty)
    then show ?thesis
      using False n res m jt by (auto simp add: json_def)
  qed
qed

text \<open>
  The theorem for the value \<open>true\<close> and a sink that holds \<open>ab\<close> in an allocation of
  four bytes, and for the same call with no sink.
\<close>

theorem sink_is_appended_to_witness:
  "json_encode (\<lambda>p m. Some ''true'') (\<lambda>x. 0) 1024 [\<lparr>count = 2, data = ''abcd''\<rparr>] [JBoolean True, JNil, JBuffer 0]
     = ([\<lparr>count = 6, data = ''abtrue''\<rparr>], Inr (JBuffer 0)) \<and>
   content (\<lparr>count = 6, data = ''abtrue''\<rparr>) = content \<lparr>count = 2, data = ''abcd''\<rparr> @ ''true'' \<and>
   json_encode (\<lambda>p m. Some ''true'') (\<lambda>x. 0) 1024 [\<lparr>count = 2, data = ''abcd''\<rparr>] [JBoolean True]
     = ([\<lparr>count = 2, data = ''abcd''\<rparr>, \<lparr>count = 4, data = ''true''\<rparr>], Inr (JBuffer 1))"
proof -
  have e1: "json_encode (\<lambda>p m. Some ''true'') (\<lambda>x. 0) 1024 [\<lparr>count = 2, data = ''abcd''\<rparr>] [JBoolean True, JNil, JBuffer 0]
     = ([\<lparr>count = 6, data = ''abtrue''\<rparr>], Inr (JBuffer 0))"
    by (simp add: json_encode_def arity_ok_def guard_tripped_def janet_optbuffer_def
        janet_buffer_push_bytes_def INT32_MAX_def c_prefix_def NUL_def)
  have e2: "json_encode (\<lambda>p m. Some ''true'') (\<lambda>x. 0) 1024 [\<lparr>count = 2, data = ''abcd''\<rparr>] [JBoolean True]
     = ([\<lparr>count = 2, data = ''abcd''\<rparr>, \<lparr>count = 4, data = ''true''\<rparr>], Inr (JBuffer 1))"
    by (simp add: json_encode_def arity_ok_def guard_tripped_def janet_optbuffer_def janet_buffer_def
        janet_buffer_push_bytes_def INT32_MAX_def c_prefix_def NUL_def)
  from sink_is_appended_to [OF e1] sink_is_appended_to [OF e2] e1 e2 show ?thesis
    by (simp add: c_prefix_def NUL_def)
qed


subsection \<open>The source of decode\<close>










section \<open>Round trip\<close>




lemma imut_items_append: "imut_items (xs @ ys) = imut_items xs @ imut_items ys"
  by (induction xs) simp_all






















end
